theory Spec2Isabelle
  imports Complex_Main "HOL-Library.Product_Lexorder"
begin

section \<open>Numbers\<close>

text \<open>
  A JavaScript \<^verbatim>\<open>Number\<close>, and a BSON double, is an IEEE 754 binary64 value: a finite
  number \<open>m * 2 ^ e\<close>, given here by a mantissa and an exponent, an infinity, or
  \<^verbatim>\<open>NaN\<close>. Several pairs denote the same finite number; the program's comparisons are
  modelled on the number denoted. The sign of zero is not represented: no operation of
  the program distinguishes the two zeros. The decimal 0.1 of a JSON text is the double
  \<open>3602879701896397 * 2 ^ -55\<close>.
\<close>

datatype double = Finite int int | PosInf | NegInf | NaN

definition zero :: double where
  "zero = Finite 0 0"

text \<open>The number of binary digits of a natural number.\<close>

fun bit_length :: "nat \<Rightarrow> nat" where
  "bit_length n = (if n = 0 then 0 else Suc (bit_length (n div 2)))"

declare bit_length.simps [simp del]

text \<open>\<open>M / 2 ^ s\<close> rounded to the nearest integer, a tie going to the even one.\<close>

definition round_half_even :: "int \<Rightarrow> nat \<Rightarrow> int" where
  "round_half_even M s =
     (let q = M div 2 ^ s;
          r = M mod 2 ^ s
      in if 2 * r < 2 ^ s then q
         else if 2 ^ s < 2 * r then q + 1
         else if even q then q else q + 1)"

definition overflows :: "int \<Rightarrow> int \<Rightarrow> bool" where
  "overflows m e = (0 \<le> e \<and> 2 ^ 1024 \<le> \<bar>m\<bar> * 2 ^ nat e)"

text \<open>
  The exact number \<open>M * 2 ^ e\<close> rounded to 53 significant bits (round to nearest, ties to
  even), an infinity when the rounded magnitude reaches \<open>2 ^ 1024\<close>. The sum of two
  doubles is a multiple of \<open>2 ^ -1074\<close>, so the subnormal range needs no second rounding.
\<close>

definition round_finite :: "int \<Rightarrow> int \<Rightarrow> double" where
  "round_finite M e =
     (let s = bit_length (nat \<bar>M\<bar>) - 53;
          m = round_half_even M s;
          e' = e + int s
      in if overflows m e' then (if M < 0 then NegInf else PosInf) else Finite m e')"

text \<open>The operator \<^verbatim>\<open>+\<close> on numbers, which is also the addition of \<^verbatim>\<open>$sum\<close>.\<close>

fun dadd :: "double \<Rightarrow> double \<Rightarrow> double" where
  "dadd NaN y = NaN"
| "dadd x NaN = NaN"
| "dadd PosInf NegInf = NaN"
| "dadd NegInf PosInf = NaN"
| "dadd PosInf y = PosInf"
| "dadd x PosInf = PosInf"
| "dadd NegInf y = NegInf"
| "dadd x NegInf = NegInf"
| "dadd (Finite m1 e1) (Finite m2 e2) =
     (if e1 \<le> e2 then round_finite (m1 + m2 * 2 ^ nat (e2 - e1)) e1
      else round_finite (m1 * 2 ^ nat (e1 - e2) + m2) e2)"

text \<open>The comparisons \<^verbatim>\<open><\<close> and \<^verbatim>\<open>===\<close> on numbers; \<^verbatim>\<open>NaN\<close> compares false with everything.\<close>

fun dlt :: "double \<Rightarrow> double \<Rightarrow> bool" where
  "dlt NaN y = False"
| "dlt x NaN = False"
| "dlt PosInf y = False"
| "dlt x NegInf = False"
| "dlt NegInf y = True"
| "dlt x PosInf = True"
| "dlt (Finite m1 e1) (Finite m2 e2) =
     (if e1 \<le> e2 then m1 < m2 * 2 ^ nat (e2 - e1) else m1 * 2 ^ nat (e1 - e2) < m2)"

fun deq :: "double \<Rightarrow> double \<Rightarrow> bool" where
  "deq (Finite m1 e1) (Finite m2 e2) =
     (if e1 \<le> e2 then m1 = m2 * 2 ^ nat (e2 - e1) else m1 * 2 ^ nat (e1 - e2) = m2)"
| "deq PosInf PosInf = True"
| "deq NegInf NegInf = True"
| "deq x y = False"

text \<open>The sum of a list of numbers, added from the left starting at 0.\<close>

definition dsum :: "double list \<Rightarrow> double" where
  "dsum xs = foldl dadd zero xs"

text \<open>
  A JSON value, by its \<^verbatim>\<open>typeof\<close>; \<open>JObject\<close> stands for the objects and arrays, whose
  contents no handler reads. \<^verbatim>\<open>JSON.parse\<close> gives a finite number or, for a literal beyond
  the range such as \<^verbatim>\<open>1e999\<close>, an infinity; it never gives \<^verbatim>\<open>NaN\<close>. \<^verbatim>\<open>res.json\<close> writes
  a number that is not finite as \<^verbatim>\<open>null\<close>.
\<close>

datatype json = JUndefined | JNull | JBool bool | JNumber double | JString string | JObject

fun res_json :: "double \<Rightarrow> json" where
  "res_json (Finite m e) = JNumber (Finite m e)"
| "res_json x = JNull"

section \<open>Data model\<close>

subsection \<open>The browser's view (Dashboard component)\<close>

text \<open>
  The dashboard holds the expense documents it fetched. It reads a date through
  \<^verbatim>\<open>new Date(expense.date)\<close> and the local-time accessors \<^verbatim>\<open>getFullYear()\<close> and
  \<^verbatim>\<open>getMonth()\<close> (0 to 11), so a date is represented here by what these two return.
  The amount is the number of the document.
\<close>

record js_date =
  getFullYear :: int
  getMonth :: nat

record client_expense =
  amount :: double
  date :: js_date

subsection \<open>The server's collections (Mongoose schemas)\<close>

text \<open>
  An ObjectId is an opaque identifier. A stored \<^verbatim>\<open>Date\<close> is represented by the calendar
  components that the aggregation operators \<^verbatim>\<open>$year\<close>, \<^verbatim>\<open>$month\<close> and
  \<^verbatim>\<open>$dayOfMonth\<close> read from it (in UTC); \<open>valid_date\<close> says that they are those of a
  calendar date.
\<close>

type_synonym oid = nat

record date =
  year :: int
  month :: nat
  dayOfMonth :: nat

definition valid_date :: "date \<Rightarrow> bool" where
  "valid_date d = (1 \<le> date.month d \<and> date.month d \<le> 12 \<and> 1 \<le> dayOfMonth d \<and> dayOfMonth d \<le> 31)"

record user_doc =
  user_id :: oid
  name :: string
  email :: string
  password :: string
  monthlyIncome :: double

text \<open>
  An expense document. The stored document holds the amount as a number; the document
  written into a response holds it as \<^verbatim>\<open>res.json\<close> writes it.
\<close>

record 'n expense_doc =
  expense_id :: oid
  user :: oid
  title :: string
  amount :: 'n
  category :: string
  date :: date

type_synonym expense = "double expense_doc"

definition expense_json :: "expense \<Rightarrow> json expense_doc" where
  "expense_json e =
     \<lparr>expense_id = expense_id e, user = user e, title = title e, amount = res_json (amount e),
      category = category e, date = date e\<rparr>"

text \<open>
  The persisted state: the two collections, and the sequence of collection operations
  performed so far (so that "no store access" is a statement about the state).
\<close>

datatype db_op =
    ExpenseSave | ExpenseFindById | ExpenseFindByIdAndDelete | ExpenseAggregate
  | UserFindById | UserSave

record db =
  expenses :: "expense list"
  users :: "user_doc list"
  trace :: "db_op list"

definition log_op :: "db_op \<Rightarrow> db \<Rightarrow> db" where
  "log_op op s = s\<lparr>trace := trace s @ [op]\<rparr>"

text \<open>
  A handler answers with an error status and message, or with its JSON payload (status
  200, or 201 after a creation). The handlers below are the route functions behind the
  \<^verbatim>\<open>protect\<close> middleware: their first argument is \<^verbatim>\<open>req.user.id\<close>, the id of the
  authenticated user. A \<^verbatim>\<open>catch\<close> block (status 500) is modelled where an input of the
  request can raise the exception; failures of the database connection are not modelled.
\<close>

datatype http_error = HttpError (status: nat) (message: string)

section \<open>Strings: numbers to text, \<^verbatim>\<open>padStart\<close>\<close>

definition digit_char :: "nat \<Rightarrow> char" where
  "digit_char d = char_of (48 + d)"

text \<open>The decimal text of an integral Number, as a template literal or \<^verbatim>\<open>String\<close> gives it.\<close>

fun str_nat :: "nat \<Rightarrow> string" where
  "str_nat n = (if n < 10 then [digit_char n] else str_nat (n div 10) @ [digit_char (n mod 10)])"

declare str_nat.simps [simp del]

definition str_int :: "int \<Rightarrow> string" where
  "str_int i = (if i < 0 then CHR ''-'' # str_nat (nat (- i)) else str_nat (nat i))"

definition padStart :: "nat \<Rightarrow> char \<Rightarrow> string \<Rightarrow> string" where
  "padStart n c s = replicate (n - length s) c @ s"

section \<open>Aggregation pipeline stages\<close>

text \<open>
  \<^verbatim>\<open>$group\<close> with a \<^verbatim>\<open>$sum\<close> accumulator: one output document per distinct key, holding
  the sum of the values of the input documents with that key, added in the order of the
  documents. Groups are emitted in the order in which their keys are first met; the
  \<^verbatim>\<open>$sort\<close> stage that follows in both pipelines fixes the final order, the keys being
  distinct. The database may keep the rounding error of its additions and round once at
  the end, and it adds whole numbers stored as integers exactly: a total of one or two
  values, and a total whose additions are all exact, is the same in each case, and the
  claims below are settled on such totals.
\<close>

fun add_to_group :: "'k \<Rightarrow> double \<Rightarrow> ('k \<times> double) list \<Rightarrow> ('k \<times> double) list" where
  "add_to_group k v [] = [(k, v)]"
| "add_to_group k v ((k', t) # gs) =
     (if k = k' then (k', dadd t v) # gs else (k', t) # add_to_group k v gs)"

definition group_sum :: "('d \<Rightarrow> 'k) \<Rightarrow> ('d \<Rightarrow> double) \<Rightarrow> 'd list \<Rightarrow> ('k \<times> double) list" where
  "group_sum key val docs = foldl (\<lambda>gs d. add_to_group (key d) (val d) gs) [] docs"

section \<open>GET /api/expenses/summary/monthly\<close>

text \<open>
  \<^verbatim>\<open>$match\<close> on the owner, \<^verbatim>\<open>$group\<close> by (year, month) summing the amounts, \<^verbatim>\<open>$sort\<close> by
  year then month, ascending. The buckets are the objects of the response, their totals
  as \<^verbatim>\<open>res.json\<close> writes them.
\<close>

definition monthlyData :: "oid \<Rightarrow> expense list \<Rightarrow> ((int \<times> nat) \<times> double) list" where
  "monthlyData u docs =
     sort_key fst
       (group_sum (\<lambda>e. (year (date e), date.month (date e))) amount
          (filter (\<lambda>e. user e = u) docs))"

record monthly_bucket =
  label :: string
  total :: json

definition month_label :: "int \<times> nat \<Rightarrow> string" where
  "month_label k = str_int (fst k) @ ''-'' @ padStart 2 (CHR ''0'') (str_nat (snd k))"

definition formattedMonthly :: "((int \<times> nat) \<times> double) list \<Rightarrow> monthly_bucket list" where
  "formattedMonthly items =
     map (\<lambda>item. \<lparr>label = month_label (fst item), total = res_json (snd item)\<rparr>) items"

definition monthlySummary :: "oid \<Rightarrow> db \<Rightarrow> (http_error + monthly_bucket list) \<times> db" where
  "monthlySummary u s =
     (Inr (formattedMonthly (monthlyData u (expenses s))), log_op ExpenseAggregate s)"

section \<open>Strings: regular expression test, \<^verbatim>\<open>split\<close>, \<^verbatim>\<open>parseInt\<close>\<close>

definition is_digit :: "char \<Rightarrow> bool" where
  "is_digit c = (48 \<le> (of_char c :: nat) \<and> (of_char c :: nat) \<le> 57)"

definition digit_val :: "char \<Rightarrow> nat" where
  "digit_val c = of_char c - 48"

text \<open>
  The anchored regular expressions the server uses are sequences of atoms, each repeated
  a fixed number of times: \<^verbatim>\<open>/^\d{4}-\d{2}$/\<close> is four digits, one hyphen, two digits.
  \<^verbatim>\<open>\d\<close> matches the ASCII digits only, and \<^verbatim>\<open>$\<close> (no multiline flag) only the end
  of the input.
\<close>

datatype re_atom = Digit | Lit char

fun atom_matches :: "re_atom \<Rightarrow> char \<Rightarrow> bool" where
  "atom_matches Digit c = is_digit c"
| "atom_matches (Lit l) c = (c = l)"

fun regex_test :: "(re_atom \<times> nat) list \<Rightarrow> string \<Rightarrow> bool" where
  "regex_test [] s = (s = [])"
| "regex_test ((a, 0) # ps) s = regex_test ps s"
| "regex_test ((a, Suc n) # ps) [] = False"
| "regex_test ((a, Suc n) # ps) (c # cs) = (atom_matches a c \<and> regex_test ((a, n) # ps) cs)"

definition month_regex :: "(re_atom \<times> nat) list" where
  "month_regex = [(Digit, 4), (Lit (CHR ''-''), 1), (Digit, 2)]"

text \<open>\<^verbatim>\<open>s.split(c)\<close>: the pieces of \<open>s\<close> between the occurrences of \<open>c\<close>.\<close>

fun split :: "char \<Rightarrow> string \<Rightarrow> string list" where
  "split c [] = [[]]"
| "split c (x # xs) =
     (if x = c then [] # split c xs
      else (case split c xs of [] \<Rightarrow> [[x]] | p # ps \<Rightarrow> (x # p) # ps))"

text \<open>Indexing an array: \<^verbatim>\<open>undefined\<close> (here \<open>None\<close>) out of range.\<close>

definition index :: "'a list \<Rightarrow> nat \<Rightarrow> 'a option" where
  "index xs i = (if i < length xs then Some (xs ! i) else None)"

definition dec_val :: "string \<Rightarrow> nat" where
  "dec_val ds = foldl (\<lambda>a c. 10 * a + digit_val c) 0 ds"

text \<open>
  \<^verbatim>\<open>parseInt\<close> without a radix, on an optional sign followed by decimal digits: the value
  of the longest prefix of digits, \<^verbatim>\<open>NaN\<close> (here \<open>None\<close>) when there is none, as for
  \<^verbatim>\<open>undefined\<close>. Leading white space and the \<^verbatim>\<open>0x\<close> prefix are not modelled: the
  server applies \<^verbatim>\<open>parseInt\<close> to the pieces of a validated month only.
\<close>

definition parseInt :: "string option \<Rightarrow> int option" where
  "parseInt arg =
     (case arg of
        None \<Rightarrow> None
      | Some s \<Rightarrow>
          (let neg = (s \<noteq> [] \<and> hd s = CHR ''-'');
               body = (if s \<noteq> [] \<and> (hd s = CHR ''-'' \<or> hd s = CHR ''+'') then tl s else s);
               ds = takeWhile is_digit body
           in if ds = [] then None
              else Some (if neg then - int (dec_val ds) else int (dec_val ds))))"

section \<open>GET /api/expenses/summary/daily\<close>

text \<open>
  The query parameter \<^verbatim>\<open>month\<close> is absent (\<open>None\<close>) or a string (a repeated parameter,
  which reaches the handler as an array, is not modelled). A parameter that fails
  the test is answered with status 400 before the collection is touched. Otherwise:
  \<^verbatim>\<open>$match\<close> on the owner and on year and month of the date, \<^verbatim>\<open>$group\<close> by day of the
  month summing the amounts, \<^verbatim>\<open>$sort\<close> by day. A comparison with \<^verbatim>\<open>NaN\<close> never holds.
\<close>

definition dailyData :: "oid \<Rightarrow> int option \<Rightarrow> int option \<Rightarrow> expense list \<Rightarrow> (nat \<times> double) list" where
  "dailyData u yr monthNum docs =
     sort_key fst
       (group_sum (\<lambda>e. dayOfMonth (date e)) amount
          (filter (\<lambda>e. user e = u
                       \<and> Some (year (date e)) = yr
                       \<and> Some (int (date.month (date e))) = monthNum) docs))"

record daily_bucket =
  day :: nat
  total :: json

record daily_summary =
  month :: string
  days :: "daily_bucket list"

definition formattedDaily :: "string \<Rightarrow> (nat \<times> double) list \<Rightarrow> daily_summary" where
  "formattedDaily m dailyData' =
     \<lparr>month = m, days = map (\<lambda>d. \<lparr>day = fst d, total = res_json (snd d)\<rparr>) dailyData'\<rparr>"

definition month_required :: http_error where
  "month_required = HttpError 400 ''A valid month query (YYYY-MM) is required''"

definition dailySummary :: "oid \<Rightarrow> string option \<Rightarrow> db \<Rightarrow> (http_error + daily_summary) \<times> db" where
  "dailySummary u query_month s =
     (case query_month of
        None \<Rightarrow> (Inl month_required, s)
      | Some m \<Rightarrow>
          if m = [] \<or> \<not> regex_test month_regex m then (Inl month_required, s)
          else
            (let yr = parseInt (index (split (CHR ''-'') m) 0);
                 monthNum = parseInt (index (split (CHR ''-'') m) 1)
             in (Inr (formattedDaily m (dailyData u yr monthNum (expenses s))),
                 log_op ExpenseAggregate s)))"

text \<open>
  The numeric components of a month string, read off its positions: the decimal value of
  the first four characters and of the characters after the fifth.
\<close>

definition year_component :: "string \<Rightarrow> nat" where
  "year_component m = dec_val (take 4 m)"

definition month_component :: "string \<Rightarrow> nat" where
  "month_component m = dec_val (drop 5 m)"

section \<open>POST /api/expenses\<close>

text \<open>
  The arguments are the fields destructured from the request body, as Mongoose's casts
  see them: \<open>title\<close> and \<open>category\<close> are absent or a string, \<open>amount\<close> is absent (or not
  castable to a Number) or a number, \<^verbatim>\<open>NaN\<close> failing the cast, and the date is absent
  (falsy), or what
  \<^verbatim>\<open>new Date(date)\<close> gives: an invalid date, or a date. \<open>now\<close> is the value of
  \<^verbatim>\<open>new Date()\<close> and \<open>new_id\<close> the ObjectId of the new document. \<^verbatim>\<open>save()\<close> validates the
  document against \<^verbatim>\<open>ExpenseSchema\<close> (required fields, the category enumeration) and throws
  before writing when it is invalid; the handler answers every exception with status 500,
  and a success with status 201 and the saved document.
\<close>

datatype date_arg = NoDate | InvalidDate | ValidDate date

definition category_enum :: "string list" where
  "category_enum = [''Food'', ''Travel'', ''Bills'', ''Other'']"

definition createExpense ::
  "oid \<Rightarrow> string option \<Rightarrow> double option \<Rightarrow> string option \<Rightarrow> date_arg \<Rightarrow> date \<Rightarrow> oid \<Rightarrow> db
     \<Rightarrow> (http_error + json expense_doc) \<times> db" where
  "createExpense req_user title' amount' category' date' now new_id s =
     (case (title', amount', category', date') of
        (Some t, Some a, Some c, d) \<Rightarrow>
          if t = [] \<or> a = NaN \<or> c \<notin> set category_enum \<or> d = InvalidDate
          then (Inl (HttpError 500 ''Server Error creating expense''), s)
          else
            (let newExpense = \<lparr>expense_id = new_id, user = req_user, title = t, amount = a,
                                category = c,
                                date = (case d of ValidDate d' \<Rightarrow> d' | _ \<Rightarrow> now)\<rparr>
             in (Inr (expense_json newExpense),
                 log_op ExpenseSave (s\<lparr>expenses := expenses s @ [newExpense]\<rparr>)))
      | _ \<Rightarrow> (Inl (HttpError 500 ''Server Error creating expense''), s))"

section \<open>DELETE /api/expenses/:id\<close>

text \<open>
  \<open>params_id\<close> is the route parameter as Mongoose casts it to an ObjectId: \<open>None\<close> when
  the string is not an ObjectId, in which case \<^verbatim>\<open>findById\<close> throws and the \<^verbatim>\<open>catch\<close>
  block answers 500.
\<close>

definition findById :: "oid \<Rightarrow> expense list \<Rightarrow> expense option" where
  "findById i docs = find (\<lambda>e. expense_id e = i) docs"

fun findByIdAndDelete :: "oid \<Rightarrow> expense list \<Rightarrow> expense list" where
  "findByIdAndDelete i [] = []"
| "findByIdAndDelete i (e # es) = (if expense_id e = i then es else e # findByIdAndDelete i es)"

definition deleteExpense :: "oid \<Rightarrow> oid option \<Rightarrow> db \<Rightarrow> (http_error + string) \<times> db" where
  "deleteExpense req_user params_id s =
     (case params_id of
        None \<Rightarrow> (Inl (HttpError 500 ''Server Error deleting expense''), s)
      | Some i \<Rightarrow>
          (let s1 = log_op ExpenseFindById s in
           case findById i (expenses s1) of
             None \<Rightarrow> (Inl (HttpError 404 ''Expense not found''), s1)
           | Some expense \<Rightarrow>
               if user expense \<noteq> req_user
               then (Inl (HttpError 401 ''User not authorized''), s1)
               else (Inr ''Expense removed successfully'',
                     log_op ExpenseFindByIdAndDelete
                       (s1\<lparr>expenses := findByIdAndDelete i (expenses s1)\<rparr>))))"

section \<open>GET and POST /api/user/income\<close>

text \<open>
  The income of the request is the JSON value \<^verbatim>\<open>req.body.income\<close>; a response carries the
  stored income as \<^verbatim>\<open>res.json\<close> writes it.
\<close>

definition User_findById :: "oid \<Rightarrow> user_doc list \<Rightarrow> user_doc option" where
  "User_findById i docs = find (\<lambda>u. user_id u = i) docs"

text \<open>\<^verbatim>\<open>user.save()\<close> writes the document back under its \<^verbatim>\<open>_id\<close>.\<close>

fun save :: "user_doc \<Rightarrow> user_doc list \<Rightarrow> user_doc list" where
  "save u [] = []"
| "save u (x # xs) = (if user_id x = user_id u then u # xs else x # save u xs)"

definition getIncome :: "oid \<Rightarrow> db \<Rightarrow> (http_error + json) \<times> db" where
  "getIncome req_user s =
     (let s1 = log_op UserFindById s in
      case User_findById req_user (users s1) of
        None \<Rightarrow> (Inl (HttpError 404 ''User not found''), s1)
      | Some u \<Rightarrow> (Inr (res_json (monthlyIncome u)), s1))"

text \<open>
  The test \<^verbatim>\<open>typeof income !== 'number' || income < 0\<close> comes first. Mongoose's cast to
  Number refuses \<^verbatim>\<open>NaN\<close> (which no JSON body holds): \<^verbatim>\<open>save()\<close> then throws and the
  \<^verbatim>\<open>catch\<close> block answers 500.
\<close>

definition setIncome :: "oid \<Rightarrow> json \<Rightarrow> db \<Rightarrow> (http_error + json) \<times> db" where
  "setIncome req_user income s =
     (case income of
        JNumber v \<Rightarrow>
          if dlt v zero then (Inl (HttpError 400 ''Invalid income amount''), s)
          else
            (let s1 = log_op UserFindById s in
             case User_findById req_user (users s1) of
               None \<Rightarrow> (Inl (HttpError 404 ''User not found''), s1)
             | Some u \<Rightarrow>
                 if v = NaN then (Inl (HttpError 500 ''Server Error''), s1)
                 else
                   (let u' = u\<lparr>monthlyIncome := v\<rparr>
                    in (Inr (res_json (monthlyIncome u')),
                        log_op UserSave (s1\<lparr>users := save u' (users s1)\<rparr>))))
      | _ \<Rightarrow> (Inl (HttpError 400 ''Invalid income amount''), s))"

section \<open>Dashboard: balance calculation\<close>

text \<open>
  The function that the dashboard passes to \<^verbatim>\<open>useMemo\<close>; \<open>now\<close> is the value of
  \<^verbatim>\<open>new Date()\<close> when it runs.
\<close>

definition currentMonthTotal_compute :: "js_date \<Rightarrow> client_expense list \<Rightarrow> double" where
  "currentMonthTotal_compute now expenses' =
     (let currentYear = getFullYear now;
          currentMonth = getMonth now
      in foldl (\<lambda>total' expense. dadd total' (client_expense.amount expense)) zero
           (filter (\<lambda>expense.
                      getFullYear (client_expense.date expense) = currentYear
                      \<and> getMonth (client_expense.date expense) = currentMonth) expenses'))"








section \<open>Notions used in the statements\<close>

text \<open>The real number that a finite double denotes.\<close>

fun dval :: "double \<Rightarrow> real" where
  "dval (Finite m e) = of_int m * 2 powi e"
| "dval x = 0"

text \<open>A double that is a whole number, and the integer it then denotes.\<close>

fun is_whole :: "double \<Rightarrow> bool" where
  "is_whole (Finite m e) = (0 \<le> e \<or> 2 ^ nat (- e) dvd m)"
| "is_whole x = False"

fun whole_val :: "double \<Rightarrow> int" where
  "whole_val (Finite m e) = (if 0 \<le> e then m * 2 ^ nat e else m div 2 ^ nat (- e))"
| "whole_val x = 0"

text \<open>
  The total that \<^verbatim>\<open>$sum\<close> holds for a group: its values added from the left, in the order
  of the documents.
\<close>

fun sum_from_first :: "double list \<Rightarrow> double" where
  "sum_from_first [] = zero"
| "sum_from_first (v # vs) = foldl dadd v vs"

text \<open>An expense of owner \<open>u\<close> whose date falls in the month \<open>k\<close> = (year, month).\<close>

definition in_month :: "oid \<Rightarrow> int \<times> nat \<Rightarrow> expense \<Rightarrow> bool" where
  "in_month u k e = (user e = u \<and> year (date e) = fst k \<and> date.month (date e) = snd k)"

text \<open>The two-character month of a label.\<close>

definition month_text :: "nat \<Rightarrow> string" where
  "month_text m = padStart 2 (CHR ''0'') (str_nat m)"

text \<open>A value that is not a number, or is a negative number.\<close>

definition not_nonneg_number :: "json \<Rightarrow> bool" where
  "not_nonneg_number x = (case x of JNumber v \<Rightarrow> dlt v zero | _ \<Rightarrow> True)"

text \<open>A finite number that is not negative.\<close>

fun finite_nonneg :: "double \<Rightarrow> bool" where
  "finite_nonneg (Finite m e) = (0 \<le> m)"
| "finite_nonneg x = False"


section \<open>Example data\<close>

text \<open>
  The scenario of the specification: user 7 owns three expenses (100 on 2024-01-05, 50 on
  2024-01-20, 75 on 2024-02-01); user 8 owns a fourth one.
\<close>

definition example_expenses :: "expense list" where
  "example_expenses =
     [\<lparr>expense_id = 1, user = 7, title = ''Lunch'', amount = Finite 100 0, category = ''Food'',
        date = \<lparr>year = 2024, month = 1, dayOfMonth = 5\<rparr>\<rparr>,
      \<lparr>expense_id = 2, user = 7, title = ''Train'', amount = Finite 50 0, category = ''Travel'',
        date = \<lparr>year = 2024, month = 1, dayOfMonth = 20\<rparr>\<rparr>,
      \<lparr>expense_id = 3, user = 7, title = ''Power'', amount = Finite 75 0, category = ''Bills'',
        date = \<lparr>year = 2024, month = 2, dayOfMonth = 1\<rparr>\<rparr>,
      \<lparr>expense_id = 4, user = 8, title = ''Book'', amount = Finite 20 0, category = ''Other'',
        date = \<lparr>year = 2024, month = 1, dayOfMonth = 5\<rparr>\<rparr>]"

definition example_users :: "user_doc list" where
  "example_users =
     [\<lparr>user_id = 7, name = ''Asha'', email = ''asha@example.org'', password = ''h7'',
        monthlyIncome = Finite 1000 0\<rparr>,
      \<lparr>user_id = 8, name = ''Ravi'', email = ''ravi@example.org'', password = ''h8'',
        monthlyIncome = Finite 0 0\<rparr>]"

definition example_db :: db where
  "example_db = \<lparr>expenses = example_expenses, users = example_users, trace = []\<rparr>"

text \<open>A collection holding one expense dated 15 March of the year 999.\<close>

definition year_999_db :: db where
  "year_999_db =
     \<lparr>expenses = [\<lparr>expense_id = 1, user = 7, title = ''Tithe'', amount = Finite 10 0,
                    category = ''Other'',
                    date = \<lparr>year = 999, month = 3, dayOfMonth = 15\<rparr>\<rparr>],
      users = example_users, trace = []\<rparr>"

text \<open>
  A collection with amounts in cents: user 7 owns 0.1 in January 2024, and 0.1 and 0.02 in
  February 2024. As doubles, 0.1 is \<open>3602879701896397 * 2 ^ -55\<close> and 0.02 is
  \<open>5764607523034235 * 2 ^ -58\<close>.
\<close>

definition tenth :: double where
  "tenth = Finite 3602879701896397 (- 55)"

definition fiftieth :: double where
  "fiftieth = Finite 5764607523034235 (- 58)"

definition cents_expenses :: "expense list" where
  "cents_expenses =
     [\<lparr>expense_id = 1, user = 7, title = ''Tea'', amount = tenth, category = ''Food'',
        date = \<lparr>year = 2024, month = 1, dayOfMonth = 5\<rparr>\<rparr>,
      \<lparr>expense_id = 2, user = 7, title = ''Tea'', amount = tenth, category = ''Food'',
        date = \<lparr>year = 2024, month = 2, dayOfMonth = 1\<rparr>\<rparr>,
      \<lparr>expense_id = 3, user = 7, title = ''Stamp'', amount = fiftieth, category = ''Other'',
        date = \<lparr>year = 2024, month = 2, dayOfMonth = 2\<rparr>\<rparr>]"

definition cents_db :: db where
  "cents_db = \<lparr>expenses = cents_expenses, users = example_users, trace = []\<rparr>"

text \<open>The dashboard in January and in February 2024, holding one expense of January.\<close>

definition january :: js_date where
  "january = \<lparr>getFullYear = 2024, getMonth = 0\<rparr>"



section \<open>Doubles: rounding, and sums of whole numbers\<close>

lemma bit_length_0: "bit_length 0 = 0"
  by (simp add: bit_length.simps [of 0])

lemma bit_length_pos: "0 < n \<Longrightarrow> bit_length n = Suc (bit_length (n div 2))"
  by (simp add: bit_length.simps [of n])

lemma bit_length_le_iff: "bit_length n \<le> b \<longleftrightarrow> n < 2 ^ b"
proof (induction b arbitrary: n)
  case 0
  show ?case by (cases "n = 0") (simp_all add: bit_length_0 bit_length_pos)
next
  case (Suc b)
  show ?case
  proof (cases "n = 0")
    case True
    then show ?thesis by (simp add: bit_length_0)
  next
    case False
    have "n div 2 < 2 ^ b \<longleftrightarrow> n < 2 * 2 ^ b"
      by auto
    with False Suc [of "n div 2"] show ?thesis
      by (simp add: bit_length_pos)
  qed
qed

lemma bit_length_shift: "0 < n \<Longrightarrow> bit_length (n * 2 ^ k) = bit_length n + k"
proof (induction k)
  case 0
  show ?case by simp
next
  case (Suc k)
  from Suc.prems have pos: "0 < n * 2 ^ Suc k"
    by simp
  have half: "n * 2 ^ Suc k div 2 = n * 2 ^ k"
    by simp
  have "bit_length (n * 2 ^ Suc k) = Suc (bit_length (n * 2 ^ Suc k div 2))"
    using pos by (rule bit_length_pos)
  also have "\<dots> = Suc (bit_length (n * 2 ^ k))"
    by (simp only: half)
  also have "\<dots> = bit_length n + Suc k"
    using Suc.IH [OF Suc.prems] by simp
  finally show ?case .
qed

lemma nat_abs_less_power: "nat \<bar>M\<bar> < 2 ^ b \<longleftrightarrow> \<bar>M\<bar> < 2 ^ b"
proof -
  have "nat \<bar>M\<bar> < 2 ^ b \<longleftrightarrow> int (nat \<bar>M\<bar>) < int (2 ^ b)"
    by (simp only: of_nat_less_iff)
  then show ?thesis by simp
qed

lemma round_half_even_exact: "round_half_even (q * 2 ^ s) s = q"
  by (simp add: round_half_even_def)

text \<open>
  If the exact number \<open>M * 2 ^ e\<close> is the integer \<open>N\<close>, of magnitude below \<open>2 ^ 53\<close>,
  rounding returns it unchanged.
\<close>

lemma round_finite_exact:
  assumes rel: "if 0 \<le> e then M * 2 ^ nat e = N else M = N * 2 ^ nat (- e)"
    and small: "\<bar>N\<bar> < 2 ^ 53"
  shows "is_whole (round_finite M e) \<and> whole_val (round_finite M e) = N"
proof (cases "\<bar>M\<bar> < 2 ^ 53")
  case True
  then have "nat \<bar>M\<bar> < 2 ^ 53"
    by (simp add: nat_abs_less_power)
  then have "bit_length (nat \<bar>M\<bar>) \<le> 53"
    unfolding bit_length_le_iff .
  then have s: "bit_length (nat \<bar>M\<bar>) - 53 = 0"
    by simp
  have no: "\<not> overflows M e"
  proof (cases "0 \<le> e")
    case True
    with rel have "\<bar>N\<bar> = \<bar>M * 2 ^ nat e\<bar>"
      by simp
    then have "\<bar>M\<bar> * 2 ^ nat e = \<bar>N\<bar>"
      by (simp add: abs_mult)
    with small have "\<bar>M\<bar> * 2 ^ nat e < (2 :: int) ^ 1024"
      by simp
    then show ?thesis by (simp add: overflows_def)
  next
    case False
    then show ?thesis by (simp add: overflows_def)
  qed
  have r: "round_finite M e = Finite M e"
    using no by (simp add: round_finite_def s round_half_even_def)
  show ?thesis
    unfolding r using rel by (cases "0 \<le> e") simp_all
next
  case big: False
  have neg: "e < 0"
  proof (rule ccontr)
    assume "\<not> e < 0"
    with rel have "\<bar>N\<bar> = \<bar>M * 2 ^ nat e\<bar>"
      by simp
    then have "\<bar>N\<bar> = \<bar>M\<bar> * 2 ^ nat e"
      by (simp add: abs_mult)
    moreover have "\<bar>M\<bar> * 1 \<le> \<bar>M\<bar> * 2 ^ nat e"
      by (rule mult_left_mono) simp_all
    ultimately show False
      using big small by simp
  qed
  define k where "k = nat (- e)"
  from neg rel have M: "M = N * 2 ^ k"
    by (simp add: k_def)
  from neg have e: "e = - int k"
    by (simp add: k_def)
  from big M have N0: "N \<noteq> 0"
    by auto
  then have Npos: "0 < nat \<bar>N\<bar>"
    by simp
  have "nat \<bar>M\<bar> = nat \<bar>N\<bar> * 2 ^ k"
    by (simp add: M abs_mult nat_mult_distrib nat_power_eq)
  then have bl: "bit_length (nat \<bar>M\<bar>) = bit_length (nat \<bar>N\<bar>) + k"
    using bit_length_shift [OF Npos, of k] by simp
  from small have "nat \<bar>N\<bar> < 2 ^ 53"
    by (simp add: nat_abs_less_power)
  then have blN: "bit_length (nat \<bar>N\<bar>) \<le> 53"
    unfolding bit_length_le_iff .
  from big have "\<not> nat \<bar>M\<bar> < 2 ^ 53"
    by (simp add: nat_abs_less_power)
  then have "\<not> bit_length (nat \<bar>M\<bar>) \<le> 53"
    unfolding bit_length_le_iff .
  then have blM: "53 < bit_length (nat \<bar>M\<bar>)"
    by simp
  define s where "s = bit_length (nat \<bar>M\<bar>) - 53"
  from bl blN blM have sk: "s \<le> k" and s0: "0 < s"
    unfolding s_def by linarith+
  define j where "j = k - s"
  define q where "q = N * 2 ^ j"
  from sk have Mq: "M = q * 2 ^ s"
    by (simp add: M q_def j_def power_add [symmetric])
  have rq: "round_half_even M s = q"
    by (simp add: Mq round_half_even_exact)
  have e': "e + int s = - int j"
    using sk by (simp add: e j_def)
  have no: "\<not> overflows q (- int j)"
  proof (cases "j = 0")
    case True
    with small have "\<bar>q\<bar> * 2 ^ nat (- int j) < (2 :: int) ^ 1024"
      by (simp add: q_def)
    then show ?thesis by (simp add: overflows_def)
  next
    case False
    then show ?thesis by (simp add: overflows_def)
  qed
  have r: "round_finite M e = Finite q (- int j)"
    using no by (simp add: round_finite_def s_def [symmetric] rq e' Let_def)
  show ?thesis
    unfolding r by (simp add: q_def)
qed

lemma whole_mantissa:
  assumes "is_whole (Finite m e)"
  shows "if 0 \<le> e then whole_val (Finite m e) = m * 2 ^ nat e
         else m = whole_val (Finite m e) * 2 ^ nat (- e)"
  using assms by auto

lemma is_whole_Finite: "is_whole x \<Longrightarrow> \<exists>m e. x = Finite m e"
  by (cases x) simp_all

text \<open>Adding two whole numbers whose sum stays below \<open>2 ^ 53\<close> in magnitude is exact.\<close>

lemma dadd_whole:
  assumes x: "is_whole x" and y: "is_whole y"
    and small: "\<bar>whole_val x + whole_val y\<bar> < 2 ^ 53"
  shows "is_whole (dadd x y) \<and> whole_val (dadd x y) = whole_val x + whole_val y"
proof -
  from x obtain m1 e1 where X: "x = Finite m1 e1"
    using is_whole_Finite by blast
  from y obtain m2 e2 where Y: "y = Finite m2 e2"
    using is_whole_Finite by blast
  define a where "a = whole_val x"
  define b where "b = whole_val y"
  have xa: "if 0 \<le> e1 then a = m1 * 2 ^ nat e1 else m1 = a * 2 ^ nat (- e1)"
    unfolding a_def X using x [unfolded X] by (rule whole_mantissa)
  have yb: "if 0 \<le> e2 then b = m2 * 2 ^ nat e2 else m2 = b * 2 ^ nat (- e2)"
    unfolding b_def Y using y [unfolded Y] by (rule whole_mantissa)
  show ?thesis
  proof (cases "e1 \<le> e2")
    case True
    define M where "M = m1 + m2 * 2 ^ nat (e2 - e1)"
    have d: "dadd x y = round_finite M e1"
      using True by (simp add: X Y M_def)
    have rel: "if 0 \<le> e1 then M * 2 ^ nat e1 = a + b else M = (a + b) * 2 ^ nat (- e1)"
    proof (cases "0 \<le> e1")
      case pos: True
      with True have e2: "0 \<le> e2" "nat e2 = nat (e2 - e1) + nat e1"
        by simp_all
      with pos xa yb show ?thesis
        by (simp add: M_def algebra_simps power_add)
    next
      case neg: False
      show ?thesis
      proof (cases "0 \<le> e2")
        case True
        then have "nat (e2 - e1) = nat e2 + nat (- e1)"
          using neg by simp
        with neg True xa yb show ?thesis
          by (simp add: M_def algebra_simps power_add)
      next
        case False
        with True have "nat (- e1) = nat (- e2) + nat (e2 - e1)"
          by simp
        with neg False xa yb show ?thesis
          by (simp add: M_def algebra_simps power_add)
      qed
    qed
    from round_finite_exact [OF rel] small show ?thesis
      by (simp add: d a_def b_def)
  next
    case False
    define M where "M = m1 * 2 ^ nat (e1 - e2) + m2"
    have d: "dadd x y = round_finite M e2"
      using False by (simp add: X Y M_def)
    have rel: "if 0 \<le> e2 then M * 2 ^ nat e2 = a + b else M = (a + b) * 2 ^ nat (- e2)"
    proof (cases "0 \<le> e2")
      case pos: True
      with False have e1: "0 \<le> e1" "nat e1 = nat (e1 - e2) + nat e2"
        by simp_all
      with pos xa yb show ?thesis
        by (simp add: M_def algebra_simps power_add)
    next
      case neg: False
      show ?thesis
      proof (cases "0 \<le> e1")
        case True
        then have "nat (e1 - e2) = nat e1 + nat (- e2)"
          using neg by simp
        with neg True xa yb show ?thesis
          by (simp add: M_def algebra_simps power_add)
      next
        case e1neg: False
        with False have "nat (- e2) = nat (- e1) + nat (e1 - e2)"
          by simp
        with neg e1neg xa yb show ?thesis
          by (simp add: M_def algebra_simps power_add)
      qed
    qed
    from round_finite_exact [OF rel] small show ?thesis
      by (simp add: d a_def b_def)
  qed
qed

text \<open>Sums of whole numbers: exact as long as the magnitudes add up to less than \<open>2 ^ 53\<close>.\<close>

lemma foldl_dadd_whole:
  assumes "is_whole a" "\<forall>x \<in> set xs. is_whole x"
    and "\<bar>whole_val a\<bar> + sum_list (map (\<lambda>x. \<bar>whole_val x\<bar>) xs) < 2 ^ 53"
  shows "is_whole (foldl dadd a xs)
       \<and> whole_val (foldl dadd a xs) = whole_val a + sum_list (map whole_val xs)"
  using assms
proof (induction xs arbitrary: a)
  case Nil
  then show ?case by simp
next
  case (Cons x xs)
  have nonneg: "0 \<le> sum_list (map (\<lambda>x. \<bar>whole_val x\<bar>) xs)"
    by (rule sum_list_nonneg) auto
  from Cons.prems have x: "is_whole x"
    by simp
  from Cons.prems(3) nonneg have small: "\<bar>whole_val a + whole_val x\<bar> < 2 ^ 53"
    by simp
  from dadd_whole [OF Cons.prems(1) x small]
  have w: "is_whole (dadd a x)" and v: "whole_val (dadd a x) = whole_val a + whole_val x"
    by simp_all
  from Cons.prems(3) have "\<bar>whole_val (dadd a x)\<bar> + sum_list (map (\<lambda>x. \<bar>whole_val x\<bar>) xs) < 2 ^ 53"
    unfolding v by simp
  with Cons.IH [OF w] Cons.prems(2) show ?case
    by (simp add: v)
qed

lemma is_whole_zero: "is_whole zero" "whole_val zero = 0"
  by (simp_all add: zero_def)

lemma dsum_whole:
  assumes "\<forall>x \<in> set xs. is_whole x"
    and "sum_list (map (\<lambda>x. \<bar>whole_val x\<bar>) xs) < 2 ^ 53"
  shows "is_whole (dsum xs) \<and> whole_val (dsum xs) = sum_list (map whole_val xs)"
  using foldl_dadd_whole [of zero xs] assms by (simp add: dsum_def is_whole_zero)

lemma deq_whole:
  assumes "is_whole x" "is_whole y"
  shows "deq x y \<longleftrightarrow> whole_val x = whole_val y"
proof -
  from assms obtain m1 e1 m2 e2 where X: "x = Finite m1 e1" and Y: "y = Finite m2 e2"
    using is_whole_Finite by blast
  define a where "a = whole_val x"
  define b where "b = whole_val y"
  have xa: "if 0 \<le> e1 then a = m1 * 2 ^ nat e1 else m1 = a * 2 ^ nat (- e1)"
    unfolding a_def X using assms(1) [unfolded X] by (rule whole_mantissa)
  have yb: "if 0 \<le> e2 then b = m2 * 2 ^ nat e2 else m2 = b * 2 ^ nat (- e2)"
    unfolding b_def Y using assms(2) [unfolded Y] by (rule whole_mantissa)
  have "deq (Finite m1 e1) (Finite m2 e2) \<longleftrightarrow> a = b"
  proof (cases "e1 \<le> e2")
    case True
    show ?thesis
    proof (cases "0 \<le> e1")
      case pos: True
      with True have "0 \<le> e2" "nat e2 = nat (e2 - e1) + nat e1"
        by simp_all
      with pos True xa yb show ?thesis
        by (simp add: power_add)
    next
      case neg: False
      show ?thesis
      proof (cases "0 \<le> e2")
        case e2: True
        then have "nat (e2 - e1) = nat e2 + nat (- e1)"
          using neg by simp
        with neg e2 True xa yb show ?thesis
          by (simp add: power_add)
      next
        case e2: False
        with True have "nat (- e1) = nat (- e2) + nat (e2 - e1)"
          by simp
        with neg e2 True xa yb show ?thesis
          by (simp add: power_add)
      qed
    qed
  next
    case False
    show ?thesis
    proof (cases "0 \<le> e2")
      case pos: True
      with False have "0 \<le> e1" "nat e1 = nat (e1 - e2) + nat e2"
        by simp_all
      with pos False xa yb show ?thesis
        by (simp add: power_add)
    next
      case neg: False
      show ?thesis
      proof (cases "0 \<le> e1")
        case e1: True
        then have "nat (e1 - e2) = nat e1 + nat (- e2)"
          using neg by simp
        with neg e1 False xa yb show ?thesis
          by (simp add: power_add)
      next
        case e1: False
        with False have "nat (- e2) = nat (- e1) + nat (e1 - e2)"
          by simp
        with neg e1 False xa yb show ?thesis
          by (simp add: power_add)
      qed
    qed
  qed
  then show ?thesis
    by (simp add: X Y a_def b_def)
qed

lemma dval_whole: "is_whole x \<Longrightarrow> dval x = of_int (whole_val x)"
proof (cases x)
  case (Finite m e)
  assume w: "is_whole x"
  show ?thesis
  proof (cases "0 \<le> e")
    case True
    then show ?thesis
      by (simp add: Finite power_int_def)
  next
    case False
    with w obtain a where m: "m = a * 2 ^ nat (- e)"
      by (auto simp: Finite dvd_def mult.commute)
    with False show ?thesis
      by (simp add: Finite power_int_def field_simps)
  qed
qed simp_all

section \<open>Groups: distinct keys, and the total held for each key\<close>

lemma keys_add_to_group: "fst ` set (add_to_group k v gs) = insert k (fst ` set gs)"
proof (induction gs)
  case Nil
  show ?case by simp
next
  case (Cons g gs)
  obtain k' t where g: "g = (k', t)" by (cases g)
  show ?case
    using Cons.IH by (simp add: g insert_commute)
qed

lemma distinct_add_to_group:
  "distinct (map fst gs) \<Longrightarrow> distinct (map fst (add_to_group k v gs))"
proof (induction gs)
  case Nil
  show ?case by simp
next
  case (Cons g gs)
  obtain k' t where g: "g = (k', t)" by (cases g)
  from Cons.prems have "k' \<notin> fst ` set gs" "distinct (map fst gs)"
    by (simp_all add: g)
  with Cons.IH show ?case
    by (simp add: g keys_add_to_group)
qed

lemma map_of_add_to_group:
  "map_of (add_to_group k v gs) =
     (map_of gs)(k \<mapsto> (case map_of gs k of None \<Rightarrow> v | Some t \<Rightarrow> dadd t v))"
  by (induction gs) (auto simp: fun_eq_iff)

text \<open>
  The total held for a key is the sum, from the left and in the order of the documents, of
  the values of the documents with that key.
\<close>

lemma map_of_foldl_add_to_group:
  "map_of (foldl (\<lambda>gs d. add_to_group (key d) (val d) gs) gs0 docs) k =
     (case map_of gs0 k of
        None \<Rightarrow>
          (if k \<in> key ` set docs
           then Some (sum_from_first (map val (filter (\<lambda>d. key d = k) docs)))
           else None)
      | Some t \<Rightarrow> Some (foldl dadd t (map val (filter (\<lambda>d. key d = k) docs))))"
proof (induction docs arbitrary: gs0)
  case Nil
  show ?case by (simp split: option.splits)
next
  case (Cons d docs)
  show ?case
  proof (cases "key d = k")
    case True
    then show ?thesis
      by (simp add: Cons.IH map_of_add_to_group split: option.splits)
  next
    case False
    then show ?thesis
      by (simp add: Cons.IH map_of_add_to_group split: option.splits)
  qed
qed

lemma distinct_foldl_add_to_group:
  "distinct (map fst gs0)
     \<Longrightarrow> distinct (map fst (foldl (\<lambda>gs d. add_to_group (key d) (val d) gs) gs0 docs))"
  by (induction docs arbitrary: gs0) (simp_all add: distinct_add_to_group)

lemma distinct_group_sum: "distinct (map fst (group_sum key val docs))"
  by (simp add: group_sum_def distinct_foldl_add_to_group)

lemma map_of_group_sum:
  "map_of (group_sum key val docs) k =
     (if k \<in> key ` set docs
      then Some (sum_from_first (map val (filter (\<lambda>d. key d = k) docs)))
      else None)"
  by (simp add: group_sum_def map_of_foldl_add_to_group)

lemma group_sum_entry:
  assumes "(k, t) \<in> set (group_sum key val docs)"
  shows "k \<in> key ` set docs
       \<and> t = sum_from_first (map val (filter (\<lambda>d. key d = k) docs))"
proof -
  from assms have "map_of (group_sum key val docs) k = Some t"
    by (simp add: distinct_group_sum)
  then show ?thesis
    by (simp add: map_of_group_sum split: if_splits)
qed

lemma group_sum_Nil: "group_sum key val [] = []"
  by (simp add: group_sum_def)

text \<open>Totals of whole numbers: as long as the magnitudes add up to less than \<open>2 ^ 53\<close>.\<close>

lemma add_to_group_whole:
  assumes "\<forall>g \<in> set gs. is_whole (snd g)" "is_whole v"
    and "sum_list (map (\<lambda>g. \<bar>whole_val (snd g)\<bar>) gs) + \<bar>whole_val v\<bar> < 2 ^ 53"
  shows "(\<forall>g \<in> set (add_to_group k v gs). is_whole (snd g))
       \<and> sum_list (map (\<lambda>g. whole_val (snd g)) (add_to_group k v gs))
           = sum_list (map (\<lambda>g. whole_val (snd g)) gs) + whole_val v
       \<and> sum_list (map (\<lambda>g. \<bar>whole_val (snd g)\<bar>) (add_to_group k v gs))
           \<le> sum_list (map (\<lambda>g. \<bar>whole_val (snd g)\<bar>) gs) + \<bar>whole_val v\<bar>"
  using assms
proof (induction gs)
  case Nil
  then show ?case by simp
next
  case (Cons g gs)
  obtain k' t where g: "g = (k', t)" by (cases g)
  have nonneg: "0 \<le> sum_list (map (\<lambda>g. \<bar>whole_val (snd g)\<bar>) gs)"
    by (rule sum_list_nonneg) auto
  show ?case
  proof (cases "k = k'")
    case True
    from Cons.prems have t: "is_whole t"
      by (simp add: g)
    from Cons.prems(3) nonneg have "\<bar>whole_val t + whole_val v\<bar> < 2 ^ 53"
      by (simp add: g)
    from dadd_whole [OF t Cons.prems(2) this]
    have "is_whole (dadd t v)" "whole_val (dadd t v) = whole_val t + whole_val v"
      by simp_all
    with True Cons.prems(1) show ?thesis
      by (simp add: g)
  next
    case False
    from Cons.prems(3) have "sum_list (map (\<lambda>g. \<bar>whole_val (snd g)\<bar>) gs) + \<bar>whole_val v\<bar> < 2 ^ 53"
      by (simp add: g)
    with Cons.IH Cons.prems(1,2) False show ?thesis
      by (simp add: g)
  qed
qed

lemma foldl_add_to_group_whole:
  assumes "\<forall>g \<in> set gs0. is_whole (snd g)" "\<forall>d \<in> set docs. is_whole (val d)"
    and "sum_list (map (\<lambda>g. \<bar>whole_val (snd g)\<bar>) gs0)
           + sum_list (map (\<lambda>d. \<bar>whole_val (val d)\<bar>) docs) < 2 ^ 53"
  shows "(\<forall>g \<in> set (foldl (\<lambda>gs d. add_to_group (key d) (val d) gs) gs0 docs). is_whole (snd g))
       \<and> sum_list (map (\<lambda>g. whole_val (snd g))
             (foldl (\<lambda>gs d. add_to_group (key d) (val d) gs) gs0 docs))
           = sum_list (map (\<lambda>g. whole_val (snd g)) gs0)
             + sum_list (map (\<lambda>d. whole_val (val d)) docs)
       \<and> sum_list (map (\<lambda>g. \<bar>whole_val (snd g)\<bar>)
             (foldl (\<lambda>gs d. add_to_group (key d) (val d) gs) gs0 docs))
           \<le> sum_list (map (\<lambda>g. \<bar>whole_val (snd g)\<bar>) gs0)
             + sum_list (map (\<lambda>d. \<bar>whole_val (val d)\<bar>) docs)"
  using assms
proof (induction docs arbitrary: gs0)
  case Nil
  then show ?case by simp
next
  case (Cons d docs)
  have nonneg: "0 \<le> sum_list (map (\<lambda>d. \<bar>whole_val (val d)\<bar>) docs)"
    by (rule sum_list_nonneg) auto
  from Cons.prems have d: "is_whole (val d)" and rest: "\<forall>d \<in> set docs. is_whole (val d)"
    by simp_all
  from Cons.prems(3) nonneg
  have "sum_list (map (\<lambda>g. \<bar>whole_val (snd g)\<bar>) gs0) + \<bar>whole_val (val d)\<bar> < 2 ^ 53"
    by simp
  from add_to_group_whole [OF Cons.prems(1) d this, of "key d"]
  have w: "\<forall>g \<in> set (add_to_group (key d) (val d) gs0). is_whole (snd g)"
    and s: "sum_list (map (\<lambda>g. whole_val (snd g)) (add_to_group (key d) (val d) gs0))
           = sum_list (map (\<lambda>g. whole_val (snd g)) gs0) + whole_val (val d)"
    and a: "sum_list (map (\<lambda>g. \<bar>whole_val (snd g)\<bar>) (add_to_group (key d) (val d) gs0))
           \<le> sum_list (map (\<lambda>g. \<bar>whole_val (snd g)\<bar>) gs0) + \<bar>whole_val (val d)\<bar>"
    by simp_all
  from a Cons.prems(3)
  have b: "sum_list (map (\<lambda>g. \<bar>whole_val (snd g)\<bar>) (add_to_group (key d) (val d) gs0))
      + sum_list (map (\<lambda>d. \<bar>whole_val (val d)\<bar>) docs) < 2 ^ 53"
    by simp
  from Cons.IH [OF w rest b] s a show ?case
    by simp
qed

lemma group_sum_whole:
  assumes "\<forall>d \<in> set docs. is_whole (val d)"
    and "sum_list (map (\<lambda>d. \<bar>whole_val (val d)\<bar>) docs) < 2 ^ 53"
  shows "(\<forall>g \<in> set (group_sum key val docs). is_whole (snd g))
       \<and> sum_list (map (\<lambda>g. whole_val (snd g)) (group_sum key val docs))
           = sum_list (map (\<lambda>d. whole_val (val d)) docs)
       \<and> sum_list (map (\<lambda>g. \<bar>whole_val (snd g)\<bar>) (group_sum key val docs))
           \<le> sum_list (map (\<lambda>d. \<bar>whole_val (val d)\<bar>) docs)"
  using foldl_add_to_group_whole [of "[]" docs val key] assms
  by (simp add: group_sum_def)

section \<open>Evaluation of examples\<close>

lemmas double_eval = round_finite_def round_half_even_def overflows_def bit_length.simps Let_def

lemma digit_char_values:
  "digit_char 0 = CHR ''0''" "digit_char 1 = CHR ''1''" "digit_char 2 = CHR ''2''"
  "digit_char 3 = CHR ''3''" "digit_char 4 = CHR ''4''" "digit_char 5 = CHR ''5''"
  "digit_char 6 = CHR ''6''" "digit_char 7 = CHR ''7''" "digit_char 8 = CHR ''8''"
  "digit_char 9 = CHR ''9''"
  by code_simp+

section \<open>The month pattern, \<^verbatim>\<open>split\<close> and \<^verbatim>\<open>parseInt\<close> on a validated month\<close>

lemma regex_test_rep:
  "regex_test ((a, n) # ps) s
     \<longleftrightarrow> (\<exists>xs rest. s = xs @ rest \<and> length xs = n \<and> list_all (atom_matches a) xs
            \<and> regex_test ps rest)"
proof (induction n arbitrary: s)
  case 0
  show ?case by simp
next
  case (Suc n)
  show ?case
  proof (cases s)
    case Nil
    then show ?thesis by simp
  next
    case (Cons c cs)
    show ?thesis
    proof
      assume "regex_test ((a, Suc n) # ps) s"
      then obtain xs rest where "atom_matches a c" "cs = xs @ rest" "length xs = n"
          "list_all (atom_matches a) xs" "regex_test ps rest"
        using Cons Suc.IH [of cs] by auto
      then have "s = (c # xs) @ rest \<and> length (c # xs) = Suc n
          \<and> list_all (atom_matches a) (c # xs) \<and> regex_test ps rest"
        using Cons by simp
      then show "\<exists>xs rest. s = xs @ rest \<and> length xs = Suc n
          \<and> list_all (atom_matches a) xs \<and> regex_test ps rest"
        by blast
    next
      assume "\<exists>xs rest. s = xs @ rest \<and> length xs = Suc n
          \<and> list_all (atom_matches a) xs \<and> regex_test ps rest"
      then obtain xs rest where h: "s = xs @ rest" "length xs = Suc n"
          "list_all (atom_matches a) xs" "regex_test ps rest"
        by blast
      then obtain x xs' where xs: "xs = x # xs'"
        by (cases xs) auto
      with h Cons have "c = x" "cs = xs' @ rest" "length xs' = n"
          "atom_matches a x" "list_all (atom_matches a) xs'"
        by auto
      with h(4) have "atom_matches a c \<and> regex_test ((a, n) # ps) cs"
        using Suc.IH [of cs] by blast
      then show "regex_test ((a, Suc n) # ps) s"
        using Cons by simp
    qed
  qed
qed

lemma single_hyphen:
  "length hs = Suc 0 \<and> list_all (atom_matches (Lit c)) hs \<longleftrightarrow> hs = [c]"
  by (cases hs) auto

text \<open>
  The test \<^verbatim>\<open>/^\d{4}-\d{2}$/\<close> holds exactly of the strings made of four digits, a hyphen
  and two digits.
\<close>

lemma month_regex_iff:
  "regex_test month_regex m
     \<longleftrightarrow> (\<exists>ys ms. m = ys @ CHR ''-'' # ms \<and> length ys = 4 \<and> length ms = 2
                   \<and> list_all is_digit ys \<and> list_all is_digit ms)"
proof -
  have digit: "atom_matches Digit = is_digit"
    by (rule ext) simp
  have "regex_test month_regex m
     \<longleftrightarrow> (\<exists>ys r1. m = ys @ r1 \<and> length ys = 4 \<and> list_all is_digit ys
           \<and> (\<exists>hs r2. r1 = hs @ r2 \<and> (length hs = Suc 0 \<and> list_all (atom_matches (Lit CHR ''-'')) hs)
           \<and> (\<exists>ms r3. r2 = ms @ r3 \<and> length ms = 2 \<and> list_all is_digit ms \<and> r3 = [])))"
    unfolding month_regex_def regex_test_rep digit by simp
  also have "\<dots> \<longleftrightarrow> (\<exists>ys ms. m = ys @ CHR ''-'' # ms \<and> length ys = 4 \<and> length ms = 2
                   \<and> list_all is_digit ys \<and> list_all is_digit ms)"
    unfolding single_hyphen by auto
  finally show ?thesis .
qed

lemma hyphen_not_digit: "\<not> is_digit (CHR ''-'')" "\<not> is_digit (CHR ''+'')"
  by (simp_all add: is_digit_def)

lemma split_no_sep: "c \<notin> set xs \<Longrightarrow> split c xs = [xs]"
  by (induction xs) auto

lemma split_at_first: "c \<notin> set ys \<Longrightarrow> split c (ys @ c # rest) = ys # split c rest"
  by (induction ys) auto

lemma digits_no_hyphen: "list_all is_digit ds \<Longrightarrow> CHR ''-'' \<notin> set ds"
  using hyphen_not_digit(1) by (auto simp: list_all_iff)

lemma split_month:
  assumes "list_all is_digit ys" "list_all is_digit ms"
  shows "split (CHR ''-'') (ys @ CHR ''-'' # ms) = [ys, ms]"
  using assms by (simp add: split_at_first split_no_sep digits_no_hyphen)

lemma parseInt_digits:
  assumes "ds \<noteq> []" "list_all is_digit ds"
  shows "parseInt (Some ds) = Some (int (dec_val ds))"
proof -
  from assms have "is_digit (hd ds)"
    by (cases ds) auto
  then have sign: "hd ds \<noteq> CHR ''-''" "hd ds \<noteq> CHR ''+''"
    using hyphen_not_digit by auto
  have tw: "takeWhile is_digit ds = ds"
    using assms(2) by (simp add: list_all_iff)
  show ?thesis
    by (simp add: parseInt_def Let_def sign tw assms(1))
qed

lemma month_parts:
  assumes "regex_test month_regex m"
  shows "parseInt (index (split (CHR ''-'') m) 0) = Some (int (year_component m))"
    and "parseInt (index (split (CHR ''-'') m) 1) = Some (int (month_component m))"
proof -
  from assms obtain ys ms where m: "m = ys @ CHR ''-'' # ms" and l: "length ys = 4" "length ms = 2"
    and d: "list_all is_digit ys" "list_all is_digit ms"
    unfolding month_regex_iff by blast
  have sp: "split (CHR ''-'') m = [ys, ms]"
    using d by (simp add: m split_month)
  have ne: "ys \<noteq> []" "ms \<noteq> []"
    using l by auto
  have td: "take 4 m = ys" "drop 5 m = ms"
    using l by (simp_all add: m)
  show "parseInt (index (split (CHR ''-'') m) 0) = Some (int (year_component m))"
    by (simp add: sp index_def parseInt_digits ne d year_component_def td)
  show "parseInt (index (split (CHR ''-'') m) 1) = Some (int (month_component m))"
    by (simp add: sp index_def parseInt_digits ne d month_component_def td)
qed

lemma dailySummary_valid:
  assumes "regex_test month_regex m"
  shows "dailySummary u (Some m) s =
    (Inr (formattedDaily m
            (dailyData u (Some (int (year_component m))) (Some (int (month_component m)))
               (expenses s))),
     log_op ExpenseAggregate s)"
proof -
  from assms have "m \<noteq> []"
    unfolding month_regex_iff by auto
  with assms month_parts [OF assms] show ?thesis
    by (simp add: dailySummary_def)
qed

text \<open>
  Claim C3. For every month string that does not match the pattern (four digits, hyphen,
  two digits), the daily summary fails with status 400 and leaves the store, including
  the record of the operations performed on it, as it was: the expense collection is not
  accessed.
\<close>

theorem dailySummary_rejects_malformed_month:
  assumes "\<not> regex_test month_regex m"
  shows "dailySummary u (Some m) s
         = (Inl (HttpError 400 ''A valid month query (YYYY-MM) is required''), s)"
  using assms by (simp add: dailySummary_def month_required_def)

theorem dailySummary_rejects_malformed_month_witness:
  "\<not> regex_test month_regex ''2024-1''
   \<and> dailySummary 7 (Some ''2024-1'') example_db
       = (Inl (HttpError 400 ''A valid month query (YYYY-MM) is required''), example_db)"
  using dailySummary_rejects_malformed_month [of "''2024-1''" 7 example_db]
  by (simp add: month_regex_def eval_nat_numeral is_digit_def)

text \<open>
  Claim C10. For every month string that matches the pattern but whose month component
  lies outside 1 to 12 (such as 2024-13), the daily summary passes validation, runs the
  aggregation on the expense collection, and answers with the month it was given and an
  empty sequence of days. The stored dates are calendar dates.
\<close>

theorem dailySummary_month_out_of_range:
  assumes "regex_test month_regex m"
    and "month_component m < 1 \<or> 12 < month_component m"
    and "\<forall>e \<in> set (expenses s). valid_date (date e)"
  shows "dailySummary u (Some m) s
         = (Inr \<lparr>month = m, days = []\<rparr>, log_op ExpenseAggregate s)"
proof -
  have "filter (\<lambda>e. user e = u \<and> Some (year (date e)) = Some (int (year_component m))
                   \<and> Some (int (date.month (date e))) = Some (int (month_component m)))
          (expenses s) = []"
    using assms(2,3) by (auto simp: filter_empty_conv valid_date_def)
  then have "dailyData u (Some (int (year_component m))) (Some (int (month_component m)))
               (expenses s) = []"
    by (simp add: dailyData_def group_sum_Nil)
  then show ?thesis
    using assms(1) by (simp add: dailySummary_valid formattedDaily_def)
qed

theorem dailySummary_month_out_of_range_witness:
  "regex_test month_regex ''2024-13'' \<and> 12 < month_component ''2024-13''
   \<and> dailySummary 7 (Some ''2024-13'') example_db
       = (Inr \<lparr>month = ''2024-13'', days = []\<rparr>, log_op ExpenseAggregate example_db)"
proof -
  have r: "regex_test month_regex ''2024-13''"
    by (simp add: month_regex_def eval_nat_numeral is_digit_def)
  have c: "month_component ''2024-13'' < 1 \<or> 12 < month_component ''2024-13''"
    by (simp add: month_component_def dec_val_def digit_val_def)
  have v: "\<forall>e \<in> set (expenses example_db). valid_date (date e)"
    by (simp add: example_db_def example_expenses_def valid_date_def)
  from dailySummary_month_out_of_range [OF r c v, of 7] r c show ?thesis
    by (simp add: month_component_def dec_val_def digit_val_def)
qed

section \<open>Decimal text of numbers\<close>

lemma digit_val_digit_char: "d < 10 \<Longrightarrow> digit_val (digit_char d) = d"
  by (simp add: digit_char_def digit_val_def)

lemma is_digit_digit_char: "d < 10 \<Longrightarrow> is_digit (digit_char d)"
  by (simp add: digit_char_def is_digit_def)

lemma dec_val_snoc: "dec_val (ds @ [c]) = 10 * dec_val ds + digit_val c"
  by (simp add: dec_val_def)

lemma dec_val_str_nat: "dec_val (str_nat n) = n"
proof (induction n rule: str_nat.induct)
  case (1 n)
  show ?case
  proof (cases "n < 10")
    case True
    then show ?thesis
      by (simp add: str_nat.simps [of n] dec_val_def digit_val_digit_char)
  next
    case False
    with 1 show ?thesis
      by (simp add: str_nat.simps [of n] dec_val_snoc digit_val_digit_char)
  qed
qed

lemma digits_str_nat: "list_all is_digit (str_nat n)"
proof (induction n rule: str_nat.induct)
  case (1 n)
  then show ?case
    by (cases "n < 10") (simp_all add: str_nat.simps [of n] is_digit_digit_char)
qed

lemma length_str_nat_1: "n < 10 \<Longrightarrow> length (str_nat n) = 1"
  by (simp add: str_nat.simps [of n])

lemma length_str_nat_2: "10 \<le> n \<Longrightarrow> n < 100 \<Longrightarrow> length (str_nat n) = 2"
  by (simp add: str_nat.simps [of n] length_str_nat_1)

lemma length_str_nat_3: "100 \<le> n \<Longrightarrow> n < 1000 \<Longrightarrow> length (str_nat n) = 3"
  by (simp add: str_nat.simps [of n] length_str_nat_2)

lemma length_str_nat_4: "1000 \<le> n \<Longrightarrow> n < 10000 \<Longrightarrow> length (str_nat n) = 4"
  by (simp add: str_nat.simps [of n] length_str_nat_3)

lemma length_str_nat_ge_5: "10000 \<le> n \<Longrightarrow> 5 \<le> length (str_nat n)"
proof (induction n rule: str_nat.induct)
  case (1 n)
  show ?case
  proof (cases "n < 100000")
    case True
    with 1(2) have "1000 \<le> n div 10" "n div 10 < 10000" by auto
    then have "length (str_nat (n div 10)) = 4" by (rule length_str_nat_4)
    with 1(2) show ?thesis by (simp add: str_nat.simps [of n])
  next
    case False
    then have "10000 \<le> n div 10" by auto
    with 1 have "5 \<le> length (str_nat (n div 10))" by simp
    with 1(2) show ?thesis by (simp add: str_nat.simps [of n])
  qed
qed

lemma length_str_nat_4_iff: "length (str_nat n) = 4 \<longleftrightarrow> 1000 \<le> n \<and> n < 10000"
proof -
  consider "n < 10" | "10 \<le> n \<and> n < 100" | "100 \<le> n \<and> n < 1000"
    | "1000 \<le> n \<and> n < 10000" | "10000 \<le> n"
    by linarith
  then show ?thesis
  proof cases
    case 1 then show ?thesis by (simp add: length_str_nat_1)
  next
    case 2 then show ?thesis by (simp add: length_str_nat_2)
  next
    case 3 then show ?thesis by (simp add: length_str_nat_3)
  next
    case 4 then show ?thesis by (simp add: length_str_nat_4)
  next
    case 5 then show ?thesis using length_str_nat_ge_5 [of n] by simp
  qed
qed

lemma dec_val_zeros: "dec_val (replicate k (CHR ''0'') @ ds) = dec_val ds"
proof -
  have "foldl (\<lambda>a c. 10 * a + digit_val c) 0 (replicate k (CHR ''0'')) = 0"
    by (induction k) (simp_all add: digit_val_def)
  then show ?thesis by (simp add: dec_val_def)
qed

lemma dec_val_padStart: "dec_val (padStart n (CHR ''0'') ds) = dec_val ds"
  by (simp add: padStart_def dec_val_zeros)

lemma is_digit_zero: "is_digit (CHR ''0'')"
  by (simp add: is_digit_def)

lemma digits_padStart: "list_all is_digit ds \<Longrightarrow> list_all is_digit (padStart n (CHR ''0'') ds)"
  by (auto simp: padStart_def list_all_iff is_digit_zero)

lemma length_padStart: "length (padStart n c s) = max n (length s)"
  by (simp add: padStart_def)

section \<open>The monthly and the daily pipeline\<close>

lemma distinct_map_insort_key:
  "distinct (map f (insort_key g x xs)) \<longleftrightarrow> f x \<notin> f ` set xs \<and> distinct (map f xs)"
  by (induction xs) (auto simp: set_insort_key)

lemma distinct_map_sort_key:
  "distinct (map f (sort_key g xs)) \<longleftrightarrow> distinct (map f xs)"
  by (induction xs) (simp_all add: distinct_map_insort_key)

lemma monthlyData_sorted:
  "sorted (map fst (monthlyData u docs)) \<and> distinct (map fst (monthlyData u docs))"
  by (simp add: monthlyData_def sorted_sort_key distinct_map_sort_key distinct_group_sum)

section \<open>Labels\<close>

lemma month_label_eq: "month_label (y, m) = str_int y @ CHR ''-'' # month_text m"
  by (simp add: month_label_def month_text_def)

lemma month_text_props:
  assumes "m < 100"
  shows "length (month_text m) = 2" "list_all is_digit (month_text m)" "dec_val (month_text m) = m"
proof -
  have "length (str_nat m) \<le> 2"
    using assms length_str_nat_1 [of m] length_str_nat_2 [of m] by (cases "m < 10") simp_all
  then show "length (month_text m) = 2"
    by (simp add: month_text_def length_padStart)
  show "list_all is_digit (month_text m)"
    by (simp add: month_text_def digits_padStart digits_str_nat)
  show "dec_val (month_text m) = m"
    by (simp add: month_text_def dec_val_padStart dec_val_str_nat)
qed

lemma str_int_digits_iff: "list_all is_digit (str_int y) \<longleftrightarrow> 0 \<le> y"
  using hyphen_not_digit(1) by (simp add: str_int_def digits_str_nat)

lemma month_label_regex:
  assumes "m < 100"
  shows "regex_test month_regex (month_label (y, m)) \<longleftrightarrow> 1000 \<le> y \<and> y \<le> 9999"
proof
  assume "regex_test month_regex (month_label (y, m))"
  then obtain ys ms where eq: "str_int y @ CHR ''-'' # month_text m = ys @ CHR ''-'' # ms"
    and l: "length ys = 4" "length ms = 2" and d: "list_all is_digit ys"
    unfolding month_regex_iff month_label_eq by blast
  have "length (CHR ''-'' # month_text m) = length (CHR ''-'' # ms)"
    using l month_text_props(1) [OF assms] by simp
  with eq have ys: "str_int y = ys"
    using append_eq_append_conv [of "str_int y" ys "CHR ''-'' # month_text m" "CHR ''-'' # ms"]
    by blast
  with d have "list_all is_digit (str_int y)"
    by simp
  then have nonneg: "0 \<le> y"
    by (simp only: str_int_digits_iff)
  with ys l have "length (str_nat (nat y)) = 4"
    by (simp add: str_int_def)
  then have "1000 \<le> nat y \<and> nat y < 10000"
    by (simp only: length_str_nat_4_iff)
  with nonneg show "1000 \<le> y \<and> y \<le> 9999"
    by linarith
next
  assume r: "1000 \<le> y \<and> y \<le> 9999"
  then have "1000 \<le> nat y \<and> nat y < 10000" by linarith
  then have "length (str_nat (nat y)) = 4"
    by (simp only: length_str_nat_4_iff)
  with r have "length (str_int y) = 4" "list_all is_digit (str_int y)"
    by (simp_all add: str_int_def digits_str_nat)
  then show "regex_test month_regex (month_label (y, m))"
    unfolding month_regex_iff month_label_eq
    using month_text_props [OF assms] by blast
qed

lemma month_label_components:
  assumes "m < 100" "1000 \<le> y" "y \<le> 9999"
  shows "int (year_component (month_label (y, m))) = y"
    and "month_component (month_label (y, m)) = m"
proof -
  from assms have "1000 \<le> nat y \<and> nat y < 10000" by linarith
  then have "length (str_nat (nat y)) = 4"
    by (simp only: length_str_nat_4_iff)
  with assms have len: "length (str_int y) = 4" and s: "str_int y = str_nat (nat y)"
    by (simp_all add: str_int_def)
  from len have "take 4 (month_label (y, m)) = str_int y" "drop 5 (month_label (y, m)) = month_text m"
    by (simp_all add: month_label_eq)
  then show "int (year_component (month_label (y, m))) = y"
    and "month_component (month_label (y, m)) = m"
    using assms month_text_props(3) [OF assms(1)]
    by (simp_all add: year_component_def month_component_def s dec_val_str_nat)
qed

section \<open>The totals of the monthly and of the daily pipeline\<close>

text \<open>
  Every bucket of the monthly pipeline stands for a month in which the owner has an
  expense, and holds the amounts of the owner's expenses of that month, added from the
  left in the order of the collection.
\<close>

lemma monthlyData_entry:
  assumes "(k, t) \<in> set (monthlyData u docs)"
  shows "(\<exists>e \<in> set docs. in_month u k e)
       \<and> t = sum_from_first (map amount (filter (in_month u k) docs))"
proof -
  let ?key = "\<lambda>e. (year (date e), date.month (date e))"
  let ?own = "filter (\<lambda>e. user e = u) docs"
  from assms have "(k, t) \<in> set (group_sum ?key amount ?own)"
    by (simp add: monthlyData_def)
  from group_sum_entry [OF this]
  have k: "k \<in> ?key ` set ?own"
    and t: "t = sum_from_first (map amount (filter (\<lambda>d. ?key d = k) ?own))"
    by simp_all
  have "filter (\<lambda>d. ?key d = k) ?own = filter (in_month u k) docs"
    by (induction docs) (auto simp: in_month_def)
  with t have "t = sum_from_first (map amount (filter (in_month u k) docs))"
    by simp
  moreover from k have "\<exists>e \<in> set docs. in_month u k e"
    by (auto simp: in_month_def)
  ultimately show ?thesis by simp
qed

lemma dailyData_month:
  "dailyData u (Some y) (Some (int m)) docs
     = sort_key fst (group_sum (\<lambda>e. dayOfMonth (date e)) amount (filter (in_month u (y, m)) docs))"
proof -
  have "filter (\<lambda>e. user e = u \<and> Some (year (date e)) = Some y
                   \<and> Some (int (date.month (date e))) = Some (int m)) docs
        = filter (in_month u (y, m)) docs"
    by (induction docs) (auto simp: in_month_def)
  then show ?thesis
    by (simp add: dailyData_def)
qed

lemma sum_from_first_whole:
  assumes "\<forall>x \<in> set xs. is_whole x"
    and "sum_list (map (\<lambda>x. \<bar>whole_val x\<bar>) xs) < 2 ^ 53"
  shows "is_whole (sum_from_first xs)
       \<and> whole_val (sum_from_first xs) = sum_list (map whole_val xs)"
proof (cases xs)
  case Nil
  then show ?thesis by (simp add: is_whole_zero)
next
  case (Cons v vs)
  from assms have "is_whole v" "\<forall>x \<in> set vs. is_whole x"
    and "\<bar>whole_val v\<bar> + sum_list (map (\<lambda>x. \<bar>whole_val x\<bar>) vs) < 2 ^ 53"
    by (simp_all add: Cons)
  from foldl_dadd_whole [OF this] show ?thesis
    by (simp add: Cons)
qed

lemma sum_list_filter_le:
  fixes f :: "'a \<Rightarrow> int"
  assumes "\<forall>x \<in> set xs. 0 \<le> f x"
  shows "sum_list (map f (filter P xs)) \<le> sum_list (map f xs)"
  using assms by (induction xs) auto

lemma filter_in_month:
  "filter (in_month u k) docs = filter (in_month u k) (filter (\<lambda>e. user e = u) docs)"
  by (induction docs) (auto simp: in_month_def)

section \<open>The monthly summary: the sum of the totals\<close>

lemma cents_february: "dadd tenth fiftieth = Finite 8646911284551353 (- 56)"
  by (simp add: tenth_def fiftieth_def double_eval)

lemma cents_monthlyData:
  "monthlyData 7 cents_expenses
     = [((2024, 1), tenth), ((2024, 2), Finite 8646911284551353 (- 56))]"
  by (simp add: monthlyData_def cents_expenses_def group_sum_def cents_february)

lemma digit_char_Suc_0: "digit_char (Suc 0) = CHR ''1''"
  using digit_char_values(2) by simp

lemma label_2024_01: "month_label (2024, Suc 0) = ''2024-01''"
  by (simp add: month_label_def str_int_def padStart_def str_nat.simps digit_char_values
        digit_char_Suc_0)

lemma label_2024_02: "month_label (2024, 2) = ''2024-02''"
  by (simp add: month_label_def str_int_def padStart_def str_nat.simps digit_char_values)

lemma cents_monthlySummary:
  "fst (monthlySummary 7 cents_db)
     = Inr [\<lparr>label = ''2024-01'', total = JNumber tenth\<rparr>,
            \<lparr>label = ''2024-02'', total = JNumber (Finite 8646911284551353 (- 56))\<rparr>]"
  by (simp add: monthlySummary_def cents_db_def cents_monthlyData formattedMonthly_def
        label_2024_01 label_2024_02 tenth_def)

lemma cents_sum_totals:
  "dsum [tenth, Finite 8646911284551353 (- 56)] = Finite 7926335344172074 (- 55)"
  by (simp add: dsum_def zero_def tenth_def double_eval)

lemma cents_sum_amounts:
  "dsum [tenth, tenth, fiftieth] = Finite 7926335344172073 (- 55)"
  by (simp add: dsum_def zero_def tenth_def fiftieth_def double_eval)

lemma cents_exact:
  "sum_list (map dval [tenth, Finite 8646911284551353 (- 56)])
     \<noteq> sum_list (map dval [tenth, tenth, fiftieth])"
  by (simp add: tenth_def fiftieth_def power_int_minus)

text \<open>
  Claim C1 as stated fails. User 7 owns 0.1 in January 2024, and 0.1 and 0.02 in February
  2024. The buckets hold 0.1 and 0.12000000000000001 (the rounded sum of 0.1 and 0.02),
  which the program adds up to 0.22000000000000003, while it adds the three amounts up to
  0.22: the two sums differ. The totals and the amounts do not have the same sum as exact
  numbers either.
\<close>

theorem monthlySummary_totals_rounding:
  "fst (monthlySummary 7 cents_db)
     = Inr [\<lparr>label = ''2024-01'', total = JNumber tenth\<rparr>,
            \<lparr>label = ''2024-02'', total = JNumber (Finite 8646911284551353 (- 56))\<rparr>]
   \<and> map amount (filter (\<lambda>e. user e = 7) (expenses cents_db)) = [tenth, tenth, fiftieth]
   \<and> \<not> deq (dsum [tenth, Finite 8646911284551353 (- 56)]) (dsum [tenth, tenth, fiftieth])
   \<and> sum_list (map dval [tenth, Finite 8646911284551353 (- 56)])
       \<noteq> sum_list (map dval [tenth, tenth, fiftieth])"
  using cents_monthlySummary cents_exact
  by (simp add: cents_sum_totals cents_sum_amounts cents_db_def cents_expenses_def)

lemma sum_list_insort_key:
  fixes f :: "'a \<Rightarrow> 'b :: comm_monoid_add"
  shows "sum_list (map f (insort_key k x xs)) = f x + sum_list (map f xs)"
  by (induction xs) (auto simp: add.left_commute)

lemma sum_list_sort_key:
  fixes f :: "'a \<Rightarrow> 'b :: comm_monoid_add"
  shows "sum_list (map f (sort_key k xs)) = sum_list (map f xs)"
  by (induction xs) (simp_all add: sum_list_insort_key)

lemma res_json_whole: "is_whole t \<Longrightarrow> res_json t = JNumber t"
  by (cases t) simp_all

lemma sum_dval_whole:
  "\<forall>x \<in> set xs. is_whole x
     \<Longrightarrow> sum_list (map dval xs) = of_int (sum_list (map whole_val xs))"
  by (induction xs) (simp_all add: dval_whole)

lemma monthlyData_whole:
  assumes "\<forall>e \<in> set docs. user e = u \<longrightarrow> is_whole (amount e)"
    and "sum_list (map (\<lambda>e. \<bar>whole_val (amount e)\<bar>) (filter (\<lambda>e. user e = u) docs)) < 2 ^ 53"
  shows "(\<forall>t \<in> set (map snd (monthlyData u docs)). is_whole t)
       \<and> sum_list (map whole_val (map snd (monthlyData u docs)))
           = sum_list (map whole_val (map amount (filter (\<lambda>e. user e = u) docs)))
       \<and> sum_list (map (\<lambda>t. \<bar>whole_val t\<bar>) (map snd (monthlyData u docs))) < 2 ^ 53"
proof -
  let ?own = "filter (\<lambda>e. user e = u) docs"
  let ?key = "\<lambda>e. (year (date e), date.month (date e))"
  from assms(1) have w: "\<forall>e \<in> set ?own. is_whole (amount e)"
    by simp
  from group_sum_whole [OF w assms(2), of ?key]
  have a: "\<forall>g \<in> set (group_sum ?key amount ?own). is_whole (snd g)"
    and b: "sum_list (map (\<lambda>g. whole_val (snd g)) (group_sum ?key amount ?own))
           = sum_list (map (\<lambda>e. whole_val (amount e)) ?own)"
    and c: "sum_list (map (\<lambda>g. \<bar>whole_val (snd g)\<bar>) (group_sum ?key amount ?own))
           \<le> sum_list (map (\<lambda>e. \<bar>whole_val (amount e)\<bar>) ?own)"
    by simp_all
  from a have "\<forall>t \<in> set (map snd (monthlyData u docs)). is_whole t"
    by (simp add: monthlyData_def)
  moreover from b have "sum_list (map whole_val (map snd (monthlyData u docs)))
      = sum_list (map whole_val (map amount ?own))"
    by (simp add: monthlyData_def comp_def sum_list_sort_key)
  moreover from c assms(2)
  have "sum_list (map (\<lambda>t. \<bar>whole_val t\<bar>) (map snd (monthlyData u docs))) < 2 ^ 53"
    by (simp add: monthlyData_def comp_def sum_list_sort_key)
  ultimately show ?thesis by simp
qed

text \<open>
  Claim C1, amended. For every owner whose amounts are whole numbers with magnitudes
  adding up to less than \<open>2 ^ 53\<close>, so that no addition rounds, and every collection: the
  monthly summary answers with buckets whose totals are numbers, and the sum of these
  totals equals the sum of the amounts of the owner's expenses, as the program adds them
  and as exact numbers.
\<close>

theorem monthlySummary_totals_sum_whole:
  assumes "\<forall>e \<in> set (expenses s). user e = u \<longrightarrow> is_whole (amount e)"
    and "sum_list (map (\<lambda>e. \<bar>whole_val (amount e)\<bar>)
           (filter (\<lambda>e. user e = u) (expenses s))) < 2 ^ 53"
  shows "\<exists>bs ts s'. monthlySummary u s = (Inr bs, s')
           \<and> map monthly_bucket.total bs = map JNumber ts
           \<and> deq (dsum ts) (dsum (map amount (filter (\<lambda>e. user e = u) (expenses s))))
           \<and> sum_list (map dval ts)
               = sum_list (map dval (map amount (filter (\<lambda>e. user e = u) (expenses s))))"
proof -
  let ?own = "map amount (filter (\<lambda>e. user e = u) (expenses s))"
  let ?ts = "map snd (monthlyData u (expenses s))"
  from monthlyData_whole [OF assms]
  have w: "\<forall>t \<in> set ?ts. is_whole t"
    and v: "sum_list (map whole_val ?ts) = sum_list (map whole_val ?own)"
    and b: "sum_list (map (\<lambda>t. \<bar>whole_val t\<bar>) ?ts) < 2 ^ 53"
    by simp_all
  from assms(1) have wo: "\<forall>x \<in> set ?own. is_whole x"
    by simp
  from assms(2) have bo: "sum_list (map (\<lambda>x. \<bar>whole_val x\<bar>) ?own) < 2 ^ 53"
    by (simp add: comp_def)
  have "map monthly_bucket.total (formattedMonthly (monthlyData u (expenses s))) = map JNumber ?ts"
    using w by (simp add: formattedMonthly_def comp_def res_json_whole)
  moreover have "deq (dsum ?ts) (dsum ?own)"
    using dsum_whole [OF w b] dsum_whole [OF wo bo] v by (simp add: deq_whole)
  moreover have "sum_list (map dval ?ts) = sum_list (map dval ?own)"
    using sum_dval_whole [OF w] sum_dval_whole [OF wo] v by simp
  ultimately show ?thesis
    unfolding monthlySummary_def by blast
qed

lemma example_monthlyData:
  "monthlyData 7 example_expenses = [((2024, 1), Finite 150 0), ((2024, 2), Finite 75 0)]"
  by (simp add: monthlyData_def example_expenses_def group_sum_def double_eval)

theorem monthlySummary_totals_sum_whole_witness:
  "fst (monthlySummary 7 example_db)
     = Inr [\<lparr>label = ''2024-01'', total = JNumber (Finite 150 0)\<rparr>,
            \<lparr>label = ''2024-02'', total = JNumber (Finite 75 0)\<rparr>]
   \<and> deq (dsum [Finite 150 0, Finite 75 0]) (dsum [Finite 100 0, Finite 50 0, Finite 75 0])"
proof -
  have w: "\<forall>e \<in> set (expenses example_db). user e = 7 \<longrightarrow> is_whole (amount e)"
    by (simp add: example_db_def example_expenses_def)
  have b: "sum_list (map (\<lambda>e. \<bar>whole_val (amount e)\<bar>)
           (filter (\<lambda>e. user e = 7) (expenses example_db))) < 2 ^ 53"
    by (simp add: example_db_def example_expenses_def)
  have m: "fst (monthlySummary 7 example_db)
     = Inr [\<lparr>label = ''2024-01'', total = JNumber (Finite 150 0)\<rparr>,
            \<lparr>label = ''2024-02'', total = JNumber (Finite 75 0)\<rparr>]"
    by (simp add: monthlySummary_def example_db_def example_monthlyData formattedMonthly_def
          label_2024_01 label_2024_02)
  from monthlySummary_totals_sum_whole [OF w b] m show ?thesis
    by (auto simp: example_db_def example_expenses_def)
qed

section \<open>The monthly summary: order and labels\<close>

text \<open>
  The buckets come in ascending order of (year, month), compared lexicographically, one
  bucket per month.
\<close>

lemma year_month_order:
  "((y1 :: int, m1 :: nat) \<le> (y2, m2)) = (y1 < y2 \<or> (y1 = y2 \<and> m1 \<le> m2))"
  by (auto simp: less_eq_prod_def)

lemma monthlySummary_sorted_by_year_month:
  "\<exists>items. fst (monthlySummary u s) = Inr (formattedMonthly items)
      \<and> sorted (map fst items) \<and> distinct (map fst items)"
  using monthlyData_sorted [of u "expenses s"] by (auto simp: monthlySummary_def)

text \<open>
  A label is the decimal text of the year, a hyphen and the month padded to two digits.
  The year is not padded: the label has the form of four digits, hyphen, two digits
  exactly when the year lies between 1000 and 9999.
\<close>

lemma monthlySummary_label_form:
  assumes "\<forall>e \<in> set (expenses s). valid_date (date e)"
    and "b \<in> set (formattedMonthly (monthlyData u (expenses s)))"
  shows "\<exists>e \<in> set (expenses s). user e = u
           \<and> label b = str_int (year (date e)) @ CHR ''-'' # month_text (date.month (date e))
           \<and> (regex_test month_regex (label b)
                \<longleftrightarrow> 1000 \<le> year (date e) \<and> year (date e) \<le> 9999)"
proof -
  from assms(2) obtain y m t where item: "((y, m), t) \<in> set (monthlyData u (expenses s))"
    and lab: "label b = month_label (y, m)"
    by (auto simp: formattedMonthly_def)
  from monthlyData_entry [OF item]
  obtain e where e: "e \<in> set (expenses s)" "in_month u (y, m) e"
    by blast
  with assms(1) have m: "m < 100"
    by (auto simp: in_month_def valid_date_def)
  from e(2) have "user e = u" "year (date e) = y" "date.month (date e) = m"
    by (simp_all add: in_month_def)
  with e(1) lab month_label_regex [OF m, of y] show ?thesis
    by (auto simp: month_label_eq)
qed

text \<open>
  The monthly summary of a collection holding one expense dated 15 March 999, the date
  that \<^verbatim>\<open>new Date("0999-03-15")\<close> gives.
\<close>

lemma monthlySummary_year_999:
  "fst (monthlySummary 7 year_999_db)
     = Inr [\<lparr>label = ''999-03'', total = JNumber (Finite 10 0)\<rparr>]"
  by (simp add: monthlySummary_def year_999_db_def monthlyData_def group_sum_def
        formattedMonthly_def month_label_def str_int_def str_nat.simps padStart_def
        digit_char_values)

lemma month_regex_999: "\<not> regex_test month_regex ''999-03''"
  by (simp add: month_regex_def eval_nat_numeral is_digit_def)

text \<open>
  Claim C4, at that collection: the label of the bucket has a three-digit year, and does
  not have the form of four digits, hyphen, two digits.
\<close>

theorem monthlySummary_label_three_digit_year:
  "fst (monthlySummary 7 year_999_db)
     = Inr [\<lparr>label = ''999-03'', total = JNumber (Finite 10 0)\<rparr>]
   \<and> \<not> regex_test month_regex ''999-03''"
  using monthlySummary_year_999 month_regex_999 by simp

section \<open>The daily summary of a month of the monthly summary\<close>

text \<open>
  When the owner's amounts are whole numbers whose magnitudes add up to less than
  \<open>2 ^ 53\<close>, no addition rounds: for a label of the monthly summary that has the form
  the daily route accepts, the day totals of the daily summary add up to the total of the
  bucket with that label.
\<close>

lemma daily_totals_match_monthly:
  assumes valid: "\<forall>e \<in> set (expenses s). valid_date (date e)"
    and b: "b \<in> set (formattedMonthly (monthlyData u (expenses s)))"
    and re: "regex_test month_regex (label b)"
    and whole: "\<forall>e \<in> set (expenses s). user e = u \<longrightarrow> is_whole (amount e)"
    and small: "sum_list (map (\<lambda>e. \<bar>whole_val (amount e)\<bar>)
                  (filter (\<lambda>e. user e = u) (expenses s))) < 2 ^ 53"
  shows "\<exists>ds s' ts t. dailySummary u (Some (label b)) s = (Inr ds, s')
           \<and> map daily_bucket.total (days ds) = map JNumber ts
           \<and> monthly_bucket.total b = JNumber t
           \<and> deq (dsum ts) t"
proof -
  from b obtain y m t where item: "((y, m), t) \<in> set (monthlyData u (expenses s))"
    and lab: "label b = month_label (y, m)" and tot: "monthly_bucket.total b = res_json t"
    by (auto simp: formattedMonthly_def)
  let ?ms = "filter (in_month u (y, m)) (expenses s)"
  let ?day = "\<lambda>e. dayOfMonth (date e)"
  let ?items = "dailyData u (Some y) (Some (int m)) (expenses s)"
  from monthlyData_entry [OF item]
  obtain e where e: "e \<in> set (expenses s)" "in_month u (y, m) e"
    and t: "t = sum_from_first (map amount ?ms)"
    by blast
  from e valid have m: "m < 100"
    by (auto simp: in_month_def valid_date_def)
  from re have range: "1000 \<le> y" "y \<le> 9999"
    using month_label_regex [OF m, of y] by (simp_all add: lab)
  have comp: "int (year_component (label b)) = y" "month_component (label b) = m"
    using month_label_components [OF m range] by (simp_all add: lab)
  have ds: "dailySummary u (Some (label b)) s
      = (Inr (formattedDaily (label b) ?items), log_op ExpenseAggregate s)"
    using dailySummary_valid [OF re, of u s] by (simp add: comp)
  from whole have w: "\<forall>e \<in> set ?ms. is_whole (amount e)"
    by (simp add: in_month_def)
  have "sum_list (map (\<lambda>e. \<bar>whole_val (amount e)\<bar>) ?ms)
      \<le> sum_list (map (\<lambda>e. \<bar>whole_val (amount e)\<bar>) (filter (\<lambda>e. user e = u) (expenses s)))"
    unfolding filter_in_month [of u "(y, m)" "expenses s"]
    by (rule sum_list_filter_le) simp
  with small have sm: "sum_list (map (\<lambda>e. \<bar>whole_val (amount e)\<bar>) ?ms) < 2 ^ 53"
    by simp
  from w have w': "\<forall>x \<in> set (map amount ?ms). is_whole x"
    by simp
  from sm have sm': "sum_list (map (\<lambda>x. \<bar>whole_val x\<bar>) (map amount ?ms)) < 2 ^ 53"
    by (simp add: comp_def)
  from sum_from_first_whole [OF w' sm']
  have tw: "is_whole t" and tv: "whole_val t = sum_list (map (\<lambda>e. whole_val (amount e)) ?ms)"
    by (simp_all add: t comp_def)
  from group_sum_whole [OF w sm, of ?day]
  have gw: "\<forall>g \<in> set (group_sum ?day amount ?ms). is_whole (snd g)"
    and gv: "sum_list (map (\<lambda>g. whole_val (snd g)) (group_sum ?day amount ?ms))
           = sum_list (map (\<lambda>e. whole_val (amount e)) ?ms)"
    and ga: "sum_list (map (\<lambda>g. \<bar>whole_val (snd g)\<bar>) (group_sum ?day amount ?ms))
           \<le> sum_list (map (\<lambda>e. \<bar>whole_val (amount e)\<bar>) ?ms)"
    by simp_all
  let ?ts = "map snd ?items"
  from gw have iw: "\<forall>x \<in> set ?ts. is_whole x"
    by (simp add: dailyData_month)
  from gv have iv: "sum_list (map whole_val ?ts) = sum_list (map (\<lambda>e. whole_val (amount e)) ?ms)"
    by (simp add: dailyData_month comp_def sum_list_sort_key)
  from ga sm have ia: "sum_list (map (\<lambda>x. \<bar>whole_val x\<bar>) ?ts) < 2 ^ 53"
    by (simp add: dailyData_month comp_def sum_list_sort_key)
  from dsum_whole [OF iw ia] iv tv
  have "is_whole (dsum ?ts)" "whole_val (dsum ?ts) = whole_val t"
    by simp_all
  with tw have eq: "deq (dsum ?ts) t"
    by (simp add: deq_whole)
  have "map daily_bucket.total (days (formattedDaily (label b) ?items)) = map JNumber ?ts"
    using iw by (simp add: formattedDaily_def comp_def res_json_whole)
  moreover from tot tw have "monthly_bucket.total b = JNumber t"
    by (simp add: res_json_whole)
  ultimately show ?thesis
    using ds eq by blast
qed

text \<open>
  Claim C2, at the same collection: the monthly summary returns the label 999-03, and the
  daily summary asked for that label answers 400, so it returns no day totals.
\<close>

theorem dailySummary_rejects_label_of_monthlySummary:
  "fst (monthlySummary 7 year_999_db)
     = Inr [\<lparr>label = ''999-03'', total = JNumber (Finite 10 0)\<rparr>]
   \<and> fst (dailySummary 7 (Some ''999-03'') year_999_db)
       = Inl (HttpError 400 ''A valid month query (YYYY-MM) is required'')"
  using monthlySummary_year_999 month_regex_999
  by (simp add: dailySummary_def month_required_def)

section \<open>Dashboard: available balance and the total of the current month\<close>



text \<open>
  The additions round as those of the program do: for the amounts 0.1 and 0.7 of the
  current month the value is 0.7999999999999999.
\<close>

lemma currentMonthTotal_compute_rounds:
  "currentMonthTotal_compute january
     [\<lparr>client_expense.amount = tenth, client_expense.date = january\<rparr>,
      \<lparr>client_expense.amount = Finite 6305039478318694 (- 53), client_expense.date = january\<rparr>]
   = Finite 7205759403792793 (- 53)"
  by (simp add: currentMonthTotal_compute_def zero_def tenth_def double_eval)









section \<open>Setting the income\<close>

lemma User_findById_save:
  "User_findById i docs = Some u \<Longrightarrow> user_id u' = i \<Longrightarrow> User_findById i (save u' docs) = Some u'"
  unfolding User_findById_def by (induction docs) (auto split: if_splits)

lemma User_findById_id: "User_findById i docs = Some u \<Longrightarrow> user_id u = i"
  unfolding User_findById_def by (auto simp: find_Some_iff)

lemma User_findById_save_other:
  "j \<noteq> user_id u' \<Longrightarrow> User_findById j (save u' docs) = User_findById j docs"
  unfolding User_findById_def by (induction docs) auto

lemma finite_nonneg_not_negative: "finite_nonneg v \<Longrightarrow> \<not> dlt v zero \<and> v \<noteq> NaN"
  by (cases v) (simp_all add: zero_def not_less zero_le_mult_iff)

lemma finite_nonneg_res_json: "finite_nonneg v \<Longrightarrow> res_json v = JNumber v"
  by (cases v) simp_all

text \<open>
  For the authenticated owner (a user of the collection): a value that is not a number,
  or is a negative number, is answered 400 and the store is unchanged; a finite number
  that is not negative is answered with the value, the income stored for the owner, as a
  following read returns it, is the value, and no other user and no expense is touched.
\<close>

lemma setIncome_outcomes:
  assumes "User_findById owner (users s) \<noteq> None"
  shows "(not_nonneg_number x
            \<longrightarrow> setIncome owner x s = (Inl (HttpError 400 ''Invalid income amount''), s))
       \<and> (finite_nonneg v
            \<longrightarrow> fst (setIncome owner (JNumber v) s) = Inr (JNumber v)
              \<and> (\<exists>u. User_findById owner (users (snd (setIncome owner (JNumber v) s))) = Some u
                      \<and> monthlyIncome u = v)
              \<and> fst (getIncome owner (snd (setIncome owner (JNumber v) s))) = Inr (JNumber v)
              \<and> (\<forall>j. j \<noteq> owner
                    \<longrightarrow> User_findById j (users (snd (setIncome owner (JNumber v) s)))
                        = User_findById j (users s))
              \<and> expenses (snd (setIncome owner (JNumber v) s)) = expenses s)"
proof -
  from assms obtain u where u: "User_findById owner (users s) = Some u"
    by auto
  then have id: "user_id u = owner"
    by (rule User_findById_id)
  have a: "not_nonneg_number x
      \<longrightarrow> setIncome owner x s = (Inl (HttpError 400 ''Invalid income amount''), s)"
    by (auto simp: setIncome_def not_nonneg_number_def split: json.splits)
  have b: "fst (setIncome owner (JNumber v) s) = Inr (JNumber v)
        \<and> (\<exists>u. User_findById owner (users (snd (setIncome owner (JNumber v) s))) = Some u
                \<and> monthlyIncome u = v)
        \<and> fst (getIncome owner (snd (setIncome owner (JNumber v) s))) = Inr (JNumber v)
        \<and> (\<forall>j. j \<noteq> owner
              \<longrightarrow> User_findById j (users (snd (setIncome owner (JNumber v) s)))
                  = User_findById j (users s))
        \<and> expenses (snd (setIncome owner (JNumber v) s)) = expenses s"
    if v: "finite_nonneg v"
    using u id finite_nonneg_not_negative [OF v] finite_nonneg_res_json [OF v]
    by (auto simp: setIncome_def getIncome_def log_op_def Let_def User_findById_save
          User_findById_save_other)
  from a b show ?thesis by blast
qed

lemma setIncome_example:
  "setIncome 7 (JNumber (Finite (- 5) 0)) example_db
     = (Inl (HttpError 400 ''Invalid income amount''), example_db)
   \<and> setIncome 7 (JString ''2500'') example_db
     = (Inl (HttpError 400 ''Invalid income amount''), example_db)
   \<and> fst (setIncome 7 (JNumber (Finite 2500 0)) example_db) = Inr (JNumber (Finite 2500 0))
   \<and> fst (getIncome 7 (snd (setIncome 7 (JNumber (Finite 2500 0)) example_db)))
       = Inr (JNumber (Finite 2500 0))"
proof -
  have u: "User_findById 7 (users example_db) \<noteq> None"
    by (simp add: User_findById_def example_db_def example_users_def)
  from setIncome_outcomes [OF u, of "JNumber (Finite (- 5) 0)" "Finite 2500 0"]
       setIncome_outcomes [OF u, of "JString ''2500''" "Finite 2500 0"]
  show ?thesis
    by (simp add: not_nonneg_number_def zero_def)
qed

text \<open>
  Claim C7, at the request body \<^verbatim>\<open>{"income":1e999}\<close> of user 7: the literal is read as
  \<^verbatim>\<open>Infinity\<close>, which is a number and is not below 0. The request is not refused; the
  infinity is stored as the income of the user; and the answer, like the answer of a
  following read, carries \<^verbatim>\<open>null\<close> and not the value.
\<close>

theorem setIncome_accepts_infinity:
  "fst (setIncome 7 (JNumber PosInf) example_db) = Inr JNull
   \<and> User_findById 7 (users (snd (setIncome 7 (JNumber PosInf) example_db)))
       = Some \<lparr>user_id = 7, name = ''Asha'', email = ''asha@example.org'', password = ''h7'',
               monthlyIncome = PosInf\<rparr>
   \<and> fst (getIncome 7 (snd (setIncome 7 (JNumber PosInf) example_db))) = Inr JNull"
  by (simp add: setIncome_def getIncome_def zero_def User_findById_def example_db_def
        example_users_def log_op_def Let_def)

section \<open>Deleting an expense\<close>

lemma findById_None: "findById i docs = None \<longleftrightarrow> i \<notin> expense_id ` set docs"
  by (auto simp: findById_def find_None_iff)

lemma findById_Some:
  "distinct (map expense_id docs) \<Longrightarrow> e \<in> set docs \<Longrightarrow> findById (expense_id e) docs = Some e"
  unfolding findById_def by (induction docs) (auto simp: image_iff)

lemma findByIdAndDelete_filter:
  "distinct (map expense_id docs) \<Longrightarrow> findByIdAndDelete i docs = filter (\<lambda>e. expense_id e \<noteq> i) docs"
proof (induction docs)
  case Nil
  show ?case by simp
next
  case (Cons e es)
  show ?case
  proof (cases "expense_id e = i")
    case True
    with Cons.prems have "\<forall>x\<in>set es. expense_id x \<noteq> i"
      by (auto simp: image_iff)
    then have "filter (\<lambda>e. expense_id e \<noteq> i) es = es"
      by (simp add: filter_id_conv)
    with True show ?thesis by simp
  next
    case False
    with Cons show ?thesis by simp
  qed
qed

text \<open>
  For a route parameter that is an ObjectId, in a collection with unique ids and for
  every caller: deleting under an id that no expense has answers 404; deleting an expense
  of another user answers with the authorization failure (status 401) and leaves the
  collection as it was; deleting an expense of the caller succeeds and removes that
  expense, and only it.
\<close>

lemma deleteExpense_outcomes:
  assumes "distinct (map expense_id (expenses s))"
  shows "(i \<notin> expense_id ` set (expenses s)
            \<longrightarrow> fst (deleteExpense caller (Some i) s) = Inl (HttpError 404 ''Expense not found'')
                \<and> expenses (snd (deleteExpense caller (Some i) s)) = expenses s)
       \<and> (\<forall>e \<in> set (expenses s). user e \<noteq> caller
            \<longrightarrow> fst (deleteExpense caller (Some (expense_id e)) s)
                  = Inl (HttpError 401 ''User not authorized'')
                \<and> expenses (snd (deleteExpense caller (Some (expense_id e)) s)) = expenses s)
       \<and> (\<forall>e \<in> set (expenses s). user e = caller
            \<longrightarrow> fst (deleteExpense caller (Some (expense_id e)) s)
                  = Inr ''Expense removed successfully''
                \<and> expenses (snd (deleteExpense caller (Some (expense_id e)) s))
                    = filter (\<lambda>x. expense_id x \<noteq> expense_id e) (expenses s)
                \<and> e \<notin> set (expenses (snd (deleteExpense caller (Some (expense_id e)) s))))"
  using assms
  by (auto simp: deleteExpense_def log_op_def findById_None [THEN iffD2] findById_Some
        findByIdAndDelete_filter Let_def)

lemma deleteExpense_example:
  "fst (deleteExpense 7 (Some 99) example_db) = Inl (HttpError 404 ''Expense not found'')
   \<and> fst (deleteExpense 8 (Some 1) example_db) = Inl (HttpError 401 ''User not authorized'')
   \<and> expenses (snd (deleteExpense 8 (Some 1) example_db)) = example_expenses
   \<and> fst (deleteExpense 7 (Some 1) example_db) = Inr ''Expense removed successfully''
   \<and> expenses (snd (deleteExpense 7 (Some 1) example_db)) = tl example_expenses"
proof -
  have d: "distinct (map expense_id (expenses example_db))"
    by (simp add: example_db_def example_expenses_def)
  from deleteExpense_outcomes [OF d, of 99 7] deleteExpense_outcomes [OF d, of 99 8]
  show ?thesis
    by (simp add: example_db_def example_expenses_def)
qed

text \<open>
  Claim C8, at the request \<^verbatim>\<open>DELETE /api/expenses/xyz\<close> of user 7: the route parameter
  is not an ObjectId, so it is the id of no expense. The answer is the status 500 of the
  \<^verbatim>\<open>catch\<close> block, not 404, and the store is as it was.
\<close>

theorem deleteExpense_malformed_id:
  "deleteExpense 7 None example_db
     = (Inl (HttpError 500 ''Server Error deleting expense''), example_db)"
  by (simp add: deleteExpense_def)

section \<open>Creating an expense\<close>

text \<open>
  Claim C9, at a request with the amount -5: the request is answered with the new
  document (status 201), and the document stored has the negative amount.
\<close>

theorem createExpense_accepts_negative_amount:
  "fst (createExpense 7 (Some ''Refund'') (Some (Finite (- 5) 0)) (Some ''Other'') NoDate
          \<lparr>year = 2024, month = 3, dayOfMonth = 9\<rparr> 5 example_db)
     = Inr \<lparr>expense_id = 5, user = 7, title = ''Refund'', amount = JNumber (Finite (- 5) 0),
            category = ''Other'', date = \<lparr>year = 2024, month = 3, dayOfMonth = 9\<rparr>\<rparr>
   \<and> expenses (snd (createExpense 7 (Some ''Refund'') (Some (Finite (- 5) 0)) (Some ''Other'')
          NoDate \<lparr>year = 2024, month = 3, dayOfMonth = 9\<rparr> 5 example_db))
     = example_expenses @
         [\<lparr>expense_id = 5, user = 7, title = ''Refund'', amount = Finite (- 5) 0,
            category = ''Other'', date = \<lparr>year = 2024, month = 3, dayOfMonth = 9\<rparr>\<rparr>]"
  by (simp add: createExpense_def category_enum_def example_db_def log_op_def Let_def
        expense_json_def)

theorem createExpense_accepts_negative_amount_witness:
  "\<exists>e. fst (createExpense 7 (Some ''Refund'') (Some (Finite (- 5) 0)) (Some ''Other'') NoDate
               \<lparr>year = 2024, month = 3, dayOfMonth = 9\<rparr> 5 example_db) = Inr (expense_json e)
        \<and> dlt (amount e) zero
        \<and> e \<in> set (expenses (snd (createExpense 7 (Some ''Refund'') (Some (Finite (- 5) 0))
                    (Some ''Other'') NoDate \<lparr>year = 2024, month = 3, dayOfMonth = 9\<rparr> 5
                    example_db)))"
proof -
  let ?e = "\<lparr>expense_id = 5, user = 7, title = ''Refund'', amount = Finite (- 5) 0,
             category = ''Other'', date = \<lparr>year = 2024, month = 3, dayOfMonth = 9\<rparr>\<rparr>"
  from createExpense_accepts_negative_amount
  have "fst (createExpense 7 (Some ''Refund'') (Some (Finite (- 5) 0)) (Some ''Other'') NoDate
               \<lparr>year = 2024, month = 3, dayOfMonth = 9\<rparr> 5 example_db) = Inr (expense_json ?e)
        \<and> dlt (amount ?e) zero
        \<and> ?e \<in> set (expenses (snd (createExpense 7 (Some ''Refund'') (Some (Finite (- 5) 0))
                    (Some ''Other'') NoDate \<lparr>year = 2024, month = 3, dayOfMonth = 9\<rparr> 5
                    example_db)))"
    by (simp add: expense_json_def zero_def)
  then show ?thesis by blast
qed

text \<open>The amount stored is the amount received, whatever its sign.\<close>

lemma createExpense_stores_amount:
  assumes "createExpense req_user t a c d now new_id s = (Inr r, s')"
  shows "\<exists>e. a = Some (amount e) \<and> r = expense_json e \<and> expenses s' = expenses s @ [e]"
  using assms
  by (auto simp: createExpense_def log_op_def Let_def
        split: option.splits if_splits date_arg.splits)

section \<open>The scenario of the specification\<close>

text \<open>
  The owner of the example has expenses of 100 on 2024-01-05, 50 on 2024-01-20 and 75 on
  2024-02-01: the monthly summary and the daily summary of January.
\<close>

lemma scenario_monthlySummary:
  "fst (monthlySummary 7 example_db)
     = Inr [\<lparr>label = ''2024-01'', total = JNumber (Finite 150 0)\<rparr>,
            \<lparr>label = ''2024-02'', total = JNumber (Finite 75 0)\<rparr>]"
  by (simp add: monthlySummary_def example_db_def example_monthlyData formattedMonthly_def
        label_2024_01 label_2024_02)

lemma scenario_dailySummary:
  "fst (dailySummary 7 (Some ''2024-01'') example_db)
     = Inr \<lparr>month = ''2024-01'',
            days = [\<lparr>day = 5, total = JNumber (Finite 100 0)\<rparr>,
                    \<lparr>day = 20, total = JNumber (Finite 50 0)\<rparr>]\<rparr>"
proof -
  have r: "regex_test month_regex ''2024-01''"
    by (simp add: month_regex_def eval_nat_numeral is_digit_def)
  have c: "year_component ''2024-01'' = 2024" "month_component ''2024-01'' = 1"
    by (simp_all add: year_component_def month_component_def dec_val_def digit_val_def)
  show ?thesis
    by (simp add: dailySummary_valid [OF r] c formattedDaily_def dailyData_def group_sum_def
          example_db_def example_expenses_def)
qed

end
